theory Spec2Isabelle
  imports Main "HOL-Library.Sublist"
begin

section \<open>JavaScript values and strings\<close>

text \<open>
  The manifest produced by the external m3u8 parser is typed \<open>any\<close> in the source. Its
  scalar fields are modelled as primitive JavaScript values. Numbers are IEEE doubles in
  JavaScript; they are kept abstract (type \<open>'n\<close>) and the two things the code does with a
  number are parameters of the model: its truthiness (\<open>nz\<close>: neither zero nor NaN) and its
  conversion to a string in a concatenation (\<open>ns\<close>).
\<close>

datatype 'n jsval = JUndefined | JNull | JBool bool | JNum 'n | JStr string

fun truthy :: "('n \<Rightarrow> bool) \<Rightarrow> 'n jsval \<Rightarrow> bool" where
  "truthy nz JUndefined = False"
| "truthy nz JNull = False"
| "truthy nz (JBool b) = b"
| "truthy nz (JNum n) = nz n"
| "truthy nz (JStr s) = (s \<noteq> [])"

fun toStr :: "('n \<Rightarrow> string) \<Rightarrow> 'n jsval \<Rightarrow> string" where
  "toStr ns JUndefined = ''undefined''"
| "toStr ns JNull = ''null''"
| "toStr ns (JBool b) = (if b then ''true'' else ''false'')"
| "toStr ns (JNum n) = ns n"
| "toStr ns (JStr s) = s"

definition nl :: string where
  "nl = [CHR 0x0A]"

text \<open>\<open>String.prototype.endsWith\<close>: the argument is a suffix of the receiver.\<close>

definition endsWith :: "string \<Rightarrow> string \<Rightarrow> bool" where
  "endsWith s t = (length t \<le> length s \<and> drop (length s - length t) s = t)"

text \<open>
  \<open>String.prototype.lastIndexOf\<close> for a one-character search string: the greatest index
  holding the character, or \<open>-1\<close>.
\<close>

fun lastIndexOf :: "string \<Rightarrow> char \<Rightarrow> int" where
  "lastIndexOf [] c = - 1"
| "lastIndexOf (x # xs) c =
     (let r = lastIndexOf xs c
      in if 0 \<le> r then r + 1 else if x = c then 0 else - 1)"

text \<open>\<open>s.substring(0, e)\<close> for \<open>0 \<le> e\<close>.\<close>

definition substring0 :: "string \<Rightarrow> int \<Rightarrow> string" where
  "substring0 s e = take (nat e) s"

section \<open>Data model\<close>

record 'n segment =
  uri :: string
  duration :: "'n jsval"

record 'n manifest =
  segments :: "'n segment list"
  endList :: "'n jsval"
  playlistType :: "'n jsval"
  targetDuration :: "'n jsval"
  mediaSequence :: "'n jsval"
  discontinuitySequence :: "'n jsval"

record 'n playlist =
  url :: string
  baseUrl :: string
  manifest :: "'n manifest"

text \<open>
  A callback is an opaque identifier \<open>'f\<close>; \<open>None\<close> stands for a falsy value in the
  callback's place, which the guards \<open>if (this.chunk.onSuccess)\<close> and
  \<open>if (this.chunk.onError)\<close> test for.
\<close>

record 'f chunk =
  chunk_url :: string
  onSuccess :: "'f option"
  onError :: "'f option"

text \<open>A \<open>LoaderFile\<close> as the transport hands it to the file-loaded handler.\<close>

record 'a loaderFile =
  file_url :: string
  file_data :: 'a

text \<open>
  What the manager does to the outside world, in order: invoking a callback with an
  argument, and calling \<open>loader.load(files, key)\<close>. A \<open>LoaderFile\<close> built by
  \<open>new LoaderFile(fileUrl)\<close> is represented by its url.
\<close>

datatype ('f, 'a) effect = Invoke 'f 'a | Load "string list" string

text \<open>
  Thrown values: the two string literals the code throws, the \<open>TypeError\<close> of reading a
  property of \<open>undefined\<close>, and what the fetch or parser adapter throws, identified by a label.
\<close>

datatype thrown = ThrownStr string | TypeError | Foreign string

text \<open>
  The manager: \<open>playlists\<close> is a JavaScript \<open>Map\<close>, which iterates in insertion order,
  so it is an association list; \<open>chunk\<close> is the nullable session slot; \<open>effects\<close> is the
  log of callback invocations and transport calls made so far.
\<close>

record ('n, 'f, 'a) chunkManager =
  playlists :: "(string \<times> 'n playlist) list"
  chunk :: "'f chunk option"
  effects :: "('f, 'a) effect list"

text \<open>\<open>Map.prototype.set\<close>: an existing key keeps its position, a new key goes last.\<close>

fun map_set :: "'k \<Rightarrow> 'v \<Rightarrow> ('k \<times> 'v) list \<Rightarrow> ('k \<times> 'v) list" where
  "map_set k v [] = [(k, v)]"
| "map_set k v (p # ps) = (if fst p = k then (k, v) # ps else p # map_set k v ps)"

text \<open>\<open>Map.prototype.delete\<close>: no entry with the key remains.\<close>

fun map_delete :: "'k \<Rightarrow> ('k \<times> 'v) list \<Rightarrow> ('k \<times> 'v) list" where
  "map_delete k [] = []"
| "map_delete k (p # ps) = (if fst p = k then map_delete k ps else p # map_delete k ps)"

section \<open>Playlist\<close>

definition Playlist :: "string \<Rightarrow> 'n manifest \<Rightarrow> thrown + 'n playlist" where
  "Playlist u m =
     (let pos = lastIndexOf u CHR ''/''
      in if pos = - 1 then Inl (ThrownStr ''Unexpected playlist URL format'')
         else Inr \<lparr>url = u, baseUrl = substring0 u (pos + 1), manifest = m\<rparr>)"

function getChunkIndex_loop :: "'n segment list \<Rightarrow> string \<Rightarrow> nat \<Rightarrow> int" where
  "getChunkIndex_loop segs u i =
     (if i < length segs
      then (if endsWith u (uri (segs ! i)) then int i
            else getChunkIndex_loop segs u (Suc i))
      else - 1)"
  by pat_completeness auto
termination
  by (relation "measure (\<lambda>(segs, u, i). length segs - i)") auto

declare getChunkIndex_loop.simps [simp del]

definition getChunkIndex :: "'n playlist \<Rightarrow> string \<Rightarrow> int" where
  "getChunkIndex p u = getChunkIndex_loop (segments (manifest p)) u 0"

definition limitedContentAvail :: "('n \<Rightarrow> bool) \<Rightarrow> 'n playlist \<Rightarrow> bool" where
  "limitedContentAvail nz p =
     (let m = manifest p in \<not> truthy nz (endList m) \<and> length (segments m) > 0)"

text \<open>
  The segment loop of \<open>getLimitedContent\<close>. Its bound is \<open>segments.length - limit\<close>; an
  index at or beyond \<open>segments.length\<close> reads \<open>undefined\<close>, and \<open>s.duration\<close> then throws.
\<close>

function getLimitedContent_loop ::
  "('n \<Rightarrow> string) \<Rightarrow> 'n segment list \<Rightarrow> int \<Rightarrow> nat \<Rightarrow> string \<Rightarrow> thrown + string" where
  "getLimitedContent_loop ns segs limit i content =
     (if int i < int (length segs) - limit
      then (if i < length segs
            then (let s = segs ! i;
                      content1 = content @ ''#EXTINF:'' @ toStr ns (duration s) @ nl;
                      content2 = content1 @ uri s @ nl
                  in getLimitedContent_loop ns segs limit (Suc i) content2)
            else Inl TypeError)
      else Inr content)"
  by pat_completeness auto
termination
  by (relation "measure (\<lambda>(ns, segs, limit, i, content). length segs - i)") auto

declare getLimitedContent_loop.simps [simp del]

definition getLimitedContent ::
  "('n \<Rightarrow> bool) \<Rightarrow> ('n \<Rightarrow> string) \<Rightarrow> 'n playlist \<Rightarrow> int \<Rightarrow> thrown + string" where
  "getLimitedContent nz ns p limit =
     (if \<not> limitedContentAvail nz p
      then Inl (ThrownStr ''Limited content allowed only for Live playlist with segments'')
      else
        let m = manifest p;
            c0 = ''#EXTM3U'' @ nl @ ''#EXT-X-VERSION:3'' @ nl;
            c1 = (if truthy nz (playlistType m)
                  then c0 @ ''#EXT-X-PLAYLIST-TYPE:'' @ toStr ns (playlistType m) @ nl
                  else c0);
            c2 = (if truthy nz (targetDuration m)
                  then c1 @ ''#EXT-X-TARGETDURATION:'' @ toStr ns (targetDuration m) @ nl
                  else c1);
            c3 = (if truthy nz (mediaSequence m)
                  then c2 @ ''#EXT-X-MEDIA-SEQUENCE:'' @ toStr ns (mediaSequence m) @ nl
                  else c2);
            c4 = (if truthy nz (discontinuitySequence m)
                  then c3 @ ''#EXT-X-DISCONTINUITY-SEQUENCE:''
                          @ toStr ns (discontinuitySequence m) @ nl
                  else c3)
        in getLimitedContent_loop ns (segments m) limit 0 c4)"

section \<open>ChunkManager\<close>

text \<open>
  The text-fetch adapter and the manifest parser are external; each is a parameter that
  either throws or returns. A method that can throw returns the manager it leaves behind
  together with the thrown value or the result.
\<close>

definition processHlsPlaylist ::
  "(string \<Rightarrow> thrown + 'n manifest) \<Rightarrow> ('n, 'f, 'a) chunkManager \<Rightarrow> string \<Rightarrow> string
   \<Rightarrow> ('n, 'f, 'a) chunkManager \<times> (thrown + 'n playlist)" where
  "processHlsPlaylist parse this u content =
     (case parse content of
        Inl e \<Rightarrow> (this, Inl e)
      | Inr m \<Rightarrow>
          (case Playlist u m of
             Inl e \<Rightarrow> (this, Inl e)
           | Inr p \<Rightarrow> (this\<lparr>playlists := map_set u p (playlists this)\<rparr>, Inr p)))"

text \<open>
  \<open>loadHlsPlaylist\<close> from the point where the awaited fetch has settled; \<open>this\<close> is the
  manager at that moment. \<open>Math.trunc(n / 2)\<close> of a length is \<open>n div 2\<close>.
\<close>

definition loadHlsPlaylist ::
  "(string \<Rightarrow> thrown + string) \<Rightarrow> (string \<Rightarrow> thrown + 'n manifest)
   \<Rightarrow> ('n \<Rightarrow> bool) \<Rightarrow> ('n \<Rightarrow> string) \<Rightarrow> ('n, 'f, 'a) chunkManager \<Rightarrow> string
   \<Rightarrow> ('n, 'f, 'a) chunkManager \<times> (thrown + string)" where
  "loadHlsPlaylist fetchContent parse nz ns this u =
     (let catch = (\<lambda>t e. (t\<lparr>playlists := map_delete u (playlists t)\<rparr>, Inl e))
      in case fetchContent u of
           Inl e \<Rightarrow> catch this e
         | Inr content \<Rightarrow>
             (case processHlsPlaylist parse this u content of
                (this1, Inl e) \<Rightarrow> catch this1 e
              | (this1, Inr p) \<Rightarrow>
                  if limitedContentAvail nz p
                  then (let limit = int (length (segments (manifest p))) div 2
                        in case getLimitedContent nz ns p limit of
                             Inl e \<Rightarrow> catch this1 e
                           | Inr r \<Rightarrow> (this1, Inr r))
                  else (this1, Inr content)))"

fun getChunkLocation_loop ::
  "(string \<times> 'n playlist) list \<Rightarrow> string \<Rightarrow> 'n playlist option \<times> int" where
  "getChunkLocation_loop [] u = (None, - 1)"
| "getChunkLocation_loop ((k, p) # ps) u =
     (let chunkIndex = getChunkIndex p u
      in if chunkIndex \<ge> 0 then (Some p, chunkIndex) else getChunkLocation_loop ps u)"

definition getChunkLocation ::
  "('n, 'f, 'a) chunkManager \<Rightarrow> string \<Rightarrow> 'n playlist option \<times> int" where
  "getChunkLocation this u = getChunkLocation_loop (playlists this) u"

text \<open>The file-building loop of \<open>loadChunk\<close>, from index \<open>i\<close>.\<close>

function loadChunk_loop :: "'n playlist \<Rightarrow> nat \<Rightarrow> string list \<Rightarrow> string list" where
  "loadChunk_loop p i files =
     (let segs = segments (manifest p)
      in if i < length segs
         then loadChunk_loop p (Suc i) (files @ [baseUrl p @ uri (segs ! i)])
         else files)"
  by pat_completeness auto
termination
  by (relation "measure (\<lambda>(p, i, files). length (segments (manifest p)) - i)") auto

declare loadChunk_loop.simps [simp del]

text \<open>
  \<open>loadChunk\<close>. A negative start index would read \<open>segments[i]\<close> as \<open>undefined\<close>, whose
  \<open>uri\<close> cannot be read, and an empty \<open>files\<close> would make \<open>files[0].url\<close> throw; both are
  branches of the model. The transport call is logged with the file list and the key.
\<close>

definition loadChunk ::
  "('n, 'f, 'a) chunkManager \<Rightarrow> string \<Rightarrow> 'f option \<Rightarrow> 'f option
   \<Rightarrow> thrown + ('n, 'f, 'a) chunkManager" where
  "loadChunk this u ok err =
     (case (case getChunkLocation this u of
              (Some p, chunkIndex) \<Rightarrow>
                if chunkIndex < 0 then Inl TypeError
                else Inr (loadChunk_loop p (nat chunkIndex) [], url p)
            | (None, chunkIndex) \<Rightarrow> Inr ([u], u)) of
        Inl e \<Rightarrow> Inl e
      | Inr (files, key) \<Rightarrow>
          (case files of
             [] \<Rightarrow> Inl TypeError
           | f0 # rest \<Rightarrow>
               Inr (this\<lparr>chunk := Some \<lparr>chunk_url = f0, onSuccess = ok, onError = err\<rparr>,
                         effects := effects this @ [Load files key]\<rparr>)))"

definition abortChunk :: "('n, 'f, 'a) chunkManager \<Rightarrow> string \<Rightarrow> ('n, 'f, 'a) chunkManager" where
  "abortChunk this u =
     (case chunk this of
        Some c \<Rightarrow> if chunk_url c = u then this\<lparr>chunk := None\<rparr> else this
      | None \<Rightarrow> this)"

text \<open>
  The callbacks are the caller's functions. What a callback does when it is invoked is a
  parameter \<open>run\<close> of the two event handlers: given the callback, its argument and the
  manager at the moment of the call, \<open>run\<close> yields the manager as the callback leaves it
  (a callback may call back into the manager, for example load the next chunk) and the
  value it throws, if it throws. The handlers log the invocation, run the callback, and
  execute \<open>this.chunk = null\<close> only when the callback has returned; a thrown value
  propagates to the transport that delivered the event.
\<close>

definition onFileLoaded ::
  "('f \<Rightarrow> 'a \<Rightarrow> ('n, 'f, 'a) chunkManager \<Rightarrow> ('n, 'f, 'a) chunkManager \<times> thrown option)
   \<Rightarrow> ('n, 'f, 'a) chunkManager \<Rightarrow> 'a loaderFile
   \<Rightarrow> ('n, 'f, 'a) chunkManager \<times> thrown option" where
  "onFileLoaded run this file =
     (case chunk this of
        Some c \<Rightarrow>
          if chunk_url c = file_url file
          then (case onSuccess c of
                  Some f \<Rightarrow>
                    (case run f (file_data file)
                            (this\<lparr>effects := effects this @ [Invoke f (file_data file)]\<rparr>) of
                       (this1, Some e) \<Rightarrow> (this1, Some e)
                     | (this1, None) \<Rightarrow> (this1\<lparr>chunk := None\<rparr>, None))
                | None \<Rightarrow> (this\<lparr>chunk := None\<rparr>, None))
          else (this, None)
      | None \<Rightarrow> (this, None))"

definition onFileError ::
  "('f \<Rightarrow> 'a \<Rightarrow> ('n, 'f, 'a) chunkManager \<Rightarrow> ('n, 'f, 'a) chunkManager \<times> thrown option)
   \<Rightarrow> ('n, 'f, 'a) chunkManager \<Rightarrow> string \<Rightarrow> 'a
   \<Rightarrow> ('n, 'f, 'a) chunkManager \<times> thrown option" where
  "onFileError run this u error =
     (case chunk this of
        Some c \<Rightarrow>
          if chunk_url c = u
          then (case onError c of
                  Some f \<Rightarrow>
                    (case run f error (this\<lparr>effects := effects this @ [Invoke f error]\<rparr>) of
                       (this1, Some e) \<Rightarrow> (this1, Some e)
                     | (this1, None) \<Rightarrow> (this1\<lparr>chunk := None\<rparr>, None))
                | None \<Rightarrow> (this\<lparr>chunk := None\<rparr>, None))
          else (this, None)
      | None \<Rightarrow> (this, None))"

text \<open>
  The constructor subscribes \<open>onFileLoaded\<close> and \<open>onFileError\<close> to the transport's two
  events; \<open>dispatch\<close> delivers one event and \<open>dispatch_all\<close> a sequence of them. A value
  thrown by a handler goes to the transport, and the next event finds the manager as that
  handler left it.
\<close>

datatype 'a event = FileLoaded "'a loaderFile" | FileError string 'a

fun dispatch ::
  "('f \<Rightarrow> 'a \<Rightarrow> ('n, 'f, 'a) chunkManager \<Rightarrow> ('n, 'f, 'a) chunkManager \<times> thrown option)
   \<Rightarrow> ('n, 'f, 'a) chunkManager \<Rightarrow> 'a event
   \<Rightarrow> ('n, 'f, 'a) chunkManager \<times> thrown option" where
  "dispatch run this (FileLoaded file) = onFileLoaded run this file"
| "dispatch run this (FileError u error) = onFileError run this u error"

fun dispatch_all ::
  "('f \<Rightarrow> 'a \<Rightarrow> ('n, 'f, 'a) chunkManager \<Rightarrow> ('n, 'f, 'a) chunkManager \<times> thrown option)
   \<Rightarrow> ('n, 'f, 'a) chunkManager \<Rightarrow> 'a event list \<Rightarrow> ('n, 'f, 'a) chunkManager" where
  "dispatch_all run this [] = this"
| "dispatch_all run this (ev # evs) = dispatch_all run (fst (dispatch run this ev)) evs"

text \<open>The callback invocations of a log, in order.\<close>

fun invocations :: "('f, 'a) effect list \<Rightarrow> ('f \<times> 'a) list" where
  "invocations [] = []"
| "invocations (Invoke f a # es) = (f, a) # invocations es"
| "invocations (Load fs k # es) = invocations es"

section \<open>The truncated document, as the specification words it\<close>

text \<open>
  One segment is rendered as an \<open>EXTINF\<close> duration line and a URI line; an optional header
  tag is emitted only for a truthy field; the header is the two fixed lines and the four
  optional tags, in this order.
\<close>

definition segment_lines :: "('n \<Rightarrow> string) \<Rightarrow> 'n segment \<Rightarrow> string" where
  "segment_lines ns s = ''#EXTINF:'' @ toStr ns (duration s) @ nl @ uri s @ nl"

definition optional_tag :: "('n \<Rightarrow> bool) \<Rightarrow> ('n \<Rightarrow> string) \<Rightarrow> string \<Rightarrow> 'n jsval \<Rightarrow> string" where
  "optional_tag nz ns name v = (if truthy nz v then name @ toStr ns v @ nl else [])"

definition header_lines :: "('n \<Rightarrow> bool) \<Rightarrow> ('n \<Rightarrow> string) \<Rightarrow> 'n manifest \<Rightarrow> string" where
  "header_lines nz ns m =
     ''#EXTM3U'' @ nl @ ''#EXT-X-VERSION:3'' @ nl
     @ optional_tag nz ns ''#EXT-X-PLAYLIST-TYPE:'' (playlistType m)
     @ optional_tag nz ns ''#EXT-X-TARGETDURATION:'' (targetDuration m)
     @ optional_tag nz ns ''#EXT-X-MEDIA-SEQUENCE:'' (mediaSequence m)
     @ optional_tag nz ns ''#EXT-X-DISCONTINUITY-SEQUENCE:'' (discontinuitySequence m)"

section \<open>Example data\<close>

text \<open>
  A live playlist with the segments \<open>a.ts\<close>, \<open>b.ts\<close>, \<open>c.ts\<close>, registered under
  \<open>http://host/path/p.m3u8\<close>. In the examples numbers are naturals, truthy when non-zero and
  printed in decimal (up to two digits).
\<close>

definition abc_manifest :: "nat manifest" where
  "abc_manifest =
     \<lparr>segments = [\<lparr>uri = ''a.ts'', duration = JNum 10\<rparr>,
                  \<lparr>uri = ''b.ts'', duration = JNum 10\<rparr>,
                  \<lparr>uri = ''c.ts'', duration = JNum 9\<rparr>],
      endList = JUndefined, playlistType = JUndefined, targetDuration = JNum 10,
      mediaSequence = JNum 0, discontinuitySequence = JUndefined\<rparr>"

definition abc_playlist :: "nat playlist" where
  "abc_playlist = \<lparr>url = ''http://host/path/p.m3u8'', baseUrl = ''http://host/path/'',
                    manifest = abc_manifest\<rparr>"

definition nat_truthy :: "nat \<Rightarrow> bool" where
  "nat_truthy n = (n \<noteq> 0)"

definition nat_text :: "nat \<Rightarrow> string" where
  "nat_text n = (if n < 10 then [''0123456789'' ! n]
                 else [''0123456789'' ! (n div 10), ''0123456789'' ! (n mod 10)])"

definition empty_manager :: "(nat, nat, nat) chunkManager" where
  "empty_manager = \<lparr>playlists = [], chunk = None, effects = []\<rparr>"

definition abc_manager :: "(nat, nat, nat) chunkManager" where
  "abc_manager = \<lparr>playlists = [(''http://host/path/p.m3u8'', abc_playlist)],
                   chunk = None, effects = []\<rparr>"

text \<open>A parser adapter that understands one document and throws on any other.\<close>

definition parse_abc :: "string \<Rightarrow> thrown + nat manifest" where
  "parse_abc content = (if content = ''abc'' then Inr abc_manifest
                       else Inl (Foreign ''parse error''))"

text \<open>
  A fetch adapter that serves that document at two urls, a text the parser rejects at a
  third, and fails elsewhere; and one that always fails.
\<close>

definition fetch_abc :: "string \<Rightarrow> thrown + string" where
  "fetch_abc u = (if u = ''http://host/path/p.m3u8'' \<or> u = ''p.m3u8'' then Inr ''abc''
                  else if u = ''http://host/live/q.m3u8'' then Inr ''garbage''
                  else Inl (Foreign ''fetch error''))"

definition fetch_down :: "string \<Rightarrow> thrown + string" where
  "fetch_down u = Inl (Foreign ''fetch error'')"

text \<open>A registry with a second playlist, stored after the first.\<close>

definition two_manager :: "(nat, nat, nat) chunkManager" where
  "two_manager =
     \<lparr>playlists = [(''http://host/path/p.m3u8'', abc_playlist),
                    (''http://host/live/q.m3u8'',
                     \<lparr>url = ''http://host/live/q.m3u8'', baseUrl = ''http://host/live/'',
                        manifest = abc_manifest\<rparr>)],
      chunk = None, effects = []\<rparr>"

text \<open>
  Three callback behaviours: one that returns without touching the manager, one that
  throws, and one that requests the next chunk before it returns.
\<close>

definition run_inert ::
  "nat \<Rightarrow> nat \<Rightarrow> (nat, nat, nat) chunkManager \<Rightarrow> (nat, nat, nat) chunkManager \<times> thrown option" where
  "run_inert f a this = (this, None)"

definition run_throw ::
  "nat \<Rightarrow> nat \<Rightarrow> (nat, nat, nat) chunkManager \<Rightarrow> (nat, nat, nat) chunkManager \<times> thrown option" where
  "run_throw f a this = (this, Some (Foreign ''callback error''))"

definition run_next ::
  "nat \<Rightarrow> nat \<Rightarrow> (nat, nat, nat) chunkManager \<Rightarrow> (nat, nat, nat) chunkManager \<times> thrown option" where
  "run_next f a this =
     (case loadChunk this ''http://host/path/c.ts'' (Some 3) (Some 4) of
        Inl e \<Rightarrow> (this, Some e)
      | Inr this1 \<Rightarrow> (this1, None))"

text \<open>
  Managers with a pending session: for \<open>b.ts\<close> of the registered playlist; for \<open>a.ts\<close>
  and then, superseding it, for \<open>b.ts\<close>; for a standalone file.
\<close>

definition pending_b :: "(nat, nat, nat) chunkManager" where
  "pending_b =
     abc_manager\<lparr>chunk := Some \<lparr>chunk_url = ''http://host/path/b.ts'',
                                 onSuccess = Some 1, onError = Some 2\<rparr>,
                 effects := [Load [''http://host/path/b.ts'', ''http://host/path/c.ts'']
                                  ''http://host/path/p.m3u8'']\<rparr>"

definition pending_a :: "(nat, nat, nat) chunkManager" where
  "pending_a =
     abc_manager\<lparr>chunk := Some \<lparr>chunk_url = ''http://host/path/a.ts'',
                                 onSuccess = Some 1, onError = Some 2\<rparr>,
                 effects := [Load [''http://host/path/a.ts'', ''http://host/path/b.ts'',
                                   ''http://host/path/c.ts''] ''http://host/path/p.m3u8'']\<rparr>"

definition pending_ab :: "(nat, nat, nat) chunkManager" where
  "pending_ab =
     abc_manager\<lparr>chunk := Some \<lparr>chunk_url = ''http://host/path/b.ts'',
                                 onSuccess = Some 3, onError = Some 4\<rparr>,
                 effects := [Load [''http://host/path/a.ts'', ''http://host/path/b.ts'',
                                   ''http://host/path/c.ts''] ''http://host/path/p.m3u8'',
                             Load [''http://host/path/b.ts'', ''http://host/path/c.ts'']
                                  ''http://host/path/p.m3u8'']\<rparr>"

definition pending_x :: "(nat, nat, nat) chunkManager" where
  "pending_x =
     empty_manager\<lparr>chunk := Some \<lparr>chunk_url = ''http://host/x.ts'',
                                   onSuccess = Some 1, onError = Some 2\<rparr>,
                   effects := [Load [''http://host/x.ts''] ''http://host/x.ts'']\<rparr>"

text \<open>The files the transport reports for \<open>b.ts\<close> and \<open>c.ts\<close>.\<close>

definition file_b :: "nat loaderFile" where
  "file_b = \<lparr>file_url = ''http://host/path/b.ts'', file_data = 7\<rparr>"

definition file_c :: "nat loaderFile" where
  "file_c = \<lparr>file_url = ''http://host/path/c.ts'', file_data = 7\<rparr>"

section \<open>Strings\<close>

lemma endsWith_suffix: "endsWith s t = suffix t s"
  unfolding endsWith_def suffix_def
  by (metis append_eq_conv_conj append_take_drop_id diff_add_inverse2 le_add2 length_append length_drop)

lemma lastIndexOf_none: "c \<notin> set s \<Longrightarrow> lastIndexOf s c = - 1"
  by (induction s) (auto simp: Let_def)

lemma lastIndexOf_range: "- 1 \<le> lastIndexOf s c \<and> lastIndexOf s c < int (length s)"
  by (induction s) (auto simp: Let_def)

lemma lastIndexOf_some:
  "c \<in> set s \<Longrightarrow> 0 \<le> lastIndexOf s c \<and>
     s ! nat (lastIndexOf s c) = c \<and> c \<notin> set (drop (Suc (nat (lastIndexOf s c))) s)"
proof (induction s)
  case Nil
  then show ?case by simp
next
  case (Cons x xs)
  show ?case
  proof (cases "c \<in> set xs")
    case True
    with Cons.IH have ih: "0 \<le> lastIndexOf xs c" "xs ! nat (lastIndexOf xs c) = c"
      "c \<notin> set (drop (Suc (nat (lastIndexOf xs c))) xs)" by auto
    then show ?thesis by (simp add: Let_def nat_add_distrib)
  next
    case False
    then have "lastIndexOf xs c = - 1" by (rule lastIndexOf_none)
    with Cons.prems False show ?thesis by (simp add: Let_def)
  qed
qed

lemma first_split_unique:
  "c \<notin> set xs \<Longrightarrow> c \<notin> set xs' \<Longrightarrow> xs @ c # ys = xs' @ c # ys' \<Longrightarrow> xs = xs' \<and> ys = ys'"
proof (induction xs arbitrary: xs')
  case Nil
  then show ?case by (cases xs') auto
next
  case (Cons x xs)
  then show ?case by (cases xs') auto
qed

lemma last_split_unique:
  assumes "b @ [c] @ rest = b' @ [c] @ rest'" and "c \<notin> set rest" and "c \<notin> set rest'"
  shows "b = b' \<and> rest = rest'"
proof -
  have "rev rest @ c # rev b = rev rest' @ c # rev b'"
    using arg_cong[OF assms(1), of rev] by simp
  with assms(2,3) have "rev rest = rev rest' \<and> rev b = rev b'"
    by (intro first_split_unique) auto
  then show ?thesis by simp
qed

lemma take_Suc_nth: "i < length xs \<Longrightarrow> take (Suc i) xs = take i xs @ [xs ! i]"
  by (simp add: take_Suc_conv_app_nth)

section \<open>Locating a segment\<close>

lemma getChunkIndex_loop_spec:
  "(getChunkIndex_loop segs u i = - 1 \<and> (\<forall>j. i \<le> j \<and> j < length segs \<longrightarrow> \<not> suffix (uri (segs ! j)) u))
   \<or> (\<exists>r. getChunkIndex_loop segs u i = int r \<and> i \<le> r \<and> r < length segs \<and> suffix (uri (segs ! r)) u
         \<and> (\<forall>j. i \<le> j \<and> j < r \<longrightarrow> \<not> suffix (uri (segs ! j)) u))"
proof (induction segs u i rule: getChunkIndex_loop.induct)
  case (1 segs u i)
  show ?case
  proof (cases "i < length segs")
    case False
    then show ?thesis by (subst getChunkIndex_loop.simps) auto
  next
    case True
    show ?thesis
    proof (cases "endsWith u (uri (segs ! i))")
      case e: True
      then show ?thesis using True
        by (subst getChunkIndex_loop.simps) (auto simp: endsWith_suffix)
    next
      case e: False
      have eq: "getChunkIndex_loop segs u i = getChunkIndex_loop segs u (Suc i)"
        using True e by (subst getChunkIndex_loop.simps) simp
      have ni: "\<not> suffix (uri (segs ! i)) u" using e by (simp add: endsWith_suffix)
      from "1.IH"[OF True e] show ?thesis
      proof
        assume a: "getChunkIndex_loop segs u (Suc i) = - 1 \<and>
          (\<forall>j. Suc i \<le> j \<and> j < length segs \<longrightarrow> \<not> suffix (uri (segs ! j)) u)"
        have "\<forall>j. i \<le> j \<and> j < length segs \<longrightarrow> \<not> suffix (uri (segs ! j)) u"
        proof (intro allI impI)
          fix j assume "i \<le> j \<and> j < length segs"
          then show "\<not> suffix (uri (segs ! j)) u"
            using a ni by (cases "j = i") auto
        qed
        with a eq show ?thesis by simp
      next
        assume "\<exists>r. getChunkIndex_loop segs u (Suc i) = int r \<and> Suc i \<le> r \<and> r < length segs \<and>
          suffix (uri (segs ! r)) u \<and> (\<forall>j. Suc i \<le> j \<and> j < r \<longrightarrow> \<not> suffix (uri (segs ! j)) u)"
        then obtain r where r: "getChunkIndex_loop segs u (Suc i) = int r" "Suc i \<le> r" "r < length segs"
          "suffix (uri (segs ! r)) u" "\<forall>j. Suc i \<le> j \<and> j < r \<longrightarrow> \<not> suffix (uri (segs ! j)) u" by blast
        have "\<forall>j. i \<le> j \<and> j < r \<longrightarrow> \<not> suffix (uri (segs ! j)) u"
        proof (intro allI impI)
          fix j assume "i \<le> j \<and> j < r"
          then show "\<not> suffix (uri (segs ! j)) u"
            using r(5) ni by (cases "j = i") auto
        qed
        with r eq show ?thesis by auto
      qed
    qed
  qed
qed

section \<open>Rendering the truncated document\<close>

lemma segment_lines_fun:
  "segment_lines ns = (\<lambda>s. ''#EXTINF:'' @ toStr ns (duration s) @ nl @ uri s @ nl)"
  by (rule ext) (simp add: segment_lines_def)

lemma getLimitedContent_loop_run:
  "0 \<le> limit \<Longrightarrow>
   getLimitedContent_loop ns segs limit i content =
     Inr (content @ concat (map (segment_lines ns) (drop i (take (length segs - nat limit) segs))))"
proof (induction ns segs limit i content rule: getLimitedContent_loop.induct)
  case (1 ns segs limit i content)
  show ?case
  proof (cases "int i < int (length segs) - limit")
    case False
    then have "length segs - nat limit \<le> i" using "1.prems" by linarith
    then have "drop i (take (length segs - nat limit) segs) = []" by simp
    with False show ?thesis by (subst getLimitedContent_loop.simps) simp
  next
    case True
    then have lt: "i < length segs - nat limit" using "1.prems" by linarith
    then have il: "i < length segs" by simp
    have d: "drop i (take (length segs - nat limit) segs)
             = segs ! i # drop (Suc i) (take (length segs - nat limit) segs)"
      using lt il by (simp add: Cons_nth_drop_Suc[symmetric])
    show ?thesis
      using True il "1.IH"[OF True il refl refl refl "1.prems"]
      by (subst getLimitedContent_loop.simps) (simp add: Let_def d segment_lines_fun)
  qed
qed

lemma getLimitedContent_header:
  "limitedContentAvail nz p \<Longrightarrow>
   getLimitedContent nz ns p limit =
     getLimitedContent_loop ns (segments (manifest p)) limit 0 (header_lines nz ns (manifest p))"
  by (simp add: getLimitedContent_def header_lines_def optional_tag_def Let_def)

lemma getLimitedContent_total:
  assumes "limitedContentAvail nz p" and "0 \<le> limit"
  shows "getLimitedContent nz ns p limit =
     Inr (header_lines nz ns (manifest p)
          @ concat (map (segment_lines ns)
                     (take (length (segments (manifest p)) - nat limit) (segments (manifest p)))))"
  using assms by (simp add: getLimitedContent_header getLimitedContent_loop_run)

section \<open>Constructing and registering a playlist\<close>

lemma baseUrl_split:
  assumes "CHR ''/'' \<in> set u"
  shows "\<exists>b rest. u = b @ [CHR ''/''] @ rest \<and> CHR ''/'' \<notin> set rest \<and>
           substring0 u (lastIndexOf u CHR ''/'' + 1) = b @ [CHR ''/'']"
proof -
  let ?n = "nat (lastIndexOf u CHR ''/'')"
  from lastIndexOf_some[OF assms]
  have p0: "0 \<le> lastIndexOf u CHR ''/''" and at: "u ! ?n = CHR ''/''"
    and rest: "CHR ''/'' \<notin> set (drop (Suc ?n) u)" by auto
  have lt: "?n < length u" using lastIndexOf_range[of u "CHR ''/''"] p0 by linarith
  have tk: "take (Suc ?n) u = take ?n u @ [CHR ''/'']"
    using take_Suc_nth[OF lt] at by simp
  have "take (Suc ?n) u @ drop (Suc ?n) u = u" by (rule append_take_drop_id)
  then have "(take ?n u @ [CHR ''/'']) @ drop (Suc ?n) u = u" unfolding tk .
  then have split: "u = take ?n u @ [CHR ''/''] @ drop (Suc ?n) u" by simp
  have "substring0 u (lastIndexOf u CHR ''/'' + 1) = take ?n u @ [CHR ''/'']"
    using tk p0 by (simp add: substring0_def nat_add_distrib)
  with split rest show ?thesis by blast
qed

lemma Playlist_ok:
  "CHR ''/'' \<in> set u \<Longrightarrow>
   Playlist u m = Inr \<lparr>url = u, baseUrl = substring0 u (lastIndexOf u CHR ''/'' + 1), manifest = m\<rparr>"
  using lastIndexOf_some[of "CHR ''/''" u] by (simp add: Playlist_def Let_def)

lemma Playlist_fail:
  "CHR ''/'' \<notin> set u \<Longrightarrow> Playlist u m = Inl (ThrownStr ''Unexpected playlist URL format'')"
  by (simp add: Playlist_def lastIndexOf_none)

lemma processHlsPlaylist_ok:
  "CHR ''/'' \<in> set u \<Longrightarrow> parse content = Inr m \<Longrightarrow>
   processHlsPlaylist parse this u content =
     (this\<lparr>playlists :=
            map_set u \<lparr>url = u, baseUrl = substring0 u (lastIndexOf u CHR ''/'' + 1), manifest = m\<rparr>
              (playlists this)\<rparr>,
      Inr \<lparr>url = u, baseUrl = substring0 u (lastIndexOf u CHR ''/'' + 1), manifest = m\<rparr>)"
  by (simp add: processHlsPlaylist_def Playlist_ok)

lemma processHlsPlaylist_fail:
  "snd (processHlsPlaylist parse this u content) = Inl e \<Longrightarrow>
   fst (processHlsPlaylist parse this u content) = this"
  by (auto simp: processHlsPlaylist_def split: sum.splits)

section \<open>Loading a playlist\<close>

lemma map_of_map_set: "map_of (map_set k v ps) = (map_of ps)(k \<mapsto> v)"
  by (induction ps) (auto simp: fun_eq_iff)

lemma map_delete_filter: "map_delete k ps = filter (\<lambda>kp. fst kp \<noteq> k) ps"
  by (induction ps) auto

lemma map_of_map_delete: "map_of (map_delete k ps) = (map_of ps)(k := None)"
  by (induction ps) (auto simp: fun_eq_iff)

lemma limitedContentAvail_iff:
  "limitedContentAvail nz p = (\<not> truthy nz (endList (manifest p)) \<and> segments (manifest p) \<noteq> [])"
  by (simp add: limitedContentAvail_def Let_def)

lemma loadHlsPlaylist_fetch_fail:
  "fetchContent u = Inl e \<Longrightarrow>
   loadHlsPlaylist fetchContent parse nz ns this u
     = (this\<lparr>playlists := map_delete u (playlists this)\<rparr>, Inl e)"
  by (simp add: loadHlsPlaylist_def)

lemma loadHlsPlaylist_parse_fail:
  "fetchContent u = Inr content \<Longrightarrow> parse content = Inl e \<Longrightarrow>
   loadHlsPlaylist fetchContent parse nz ns this u
     = (this\<lparr>playlists := map_delete u (playlists this)\<rparr>, Inl e)"
  by (simp add: loadHlsPlaylist_def processHlsPlaylist_def)

lemma loadHlsPlaylist_ctor_fail:
  assumes "fetchContent u = Inr content" and "parse content = Inr m"
    and "Playlist u m = Inl e"
  shows "loadHlsPlaylist fetchContent parse nz ns this u
     = (this\<lparr>playlists := map_delete u (playlists this)\<rparr>, Inl e)"
  using assms
  by (simp add: loadHlsPlaylist_def processHlsPlaylist_def)

lemma loadHlsPlaylist_ok:
  assumes "fetchContent u = Inr content" and "parse content = Inr m"
    and "Playlist u m = Inr p"
  shows "loadHlsPlaylist fetchContent parse nz ns this u
     = (this\<lparr>playlists := map_set u p (playlists this)\<rparr>,
        if limitedContentAvail nz p
        then getLimitedContent nz ns p (int (length (segments (manifest p)) div 2))
        else Inr content)"
proof (cases "limitedContentAvail nz p")
  case False
  with assms show ?thesis by (simp add: loadHlsPlaylist_def processHlsPlaylist_def)
next
  case True
  have "getLimitedContent nz ns p (int (length (segments (manifest p))) div 2)
        = Inr (header_lines nz ns (manifest p)
          @ concat (map (segment_lines ns)
              (take (length (segments (manifest p)) - nat (int (length (segments (manifest p))) div 2))
                 (segments (manifest p)))))"
    by (rule getLimitedContent_total[OF True]) simp
  with assms True show ?thesis
    by (simp add: loadHlsPlaylist_def processHlsPlaylist_def Let_def zdiv_int)
qed

section \<open>Loading a chunk\<close>

lemma loadChunk_loop_run:
  "loadChunk_loop p i files
     = files @ map (\<lambda>s. baseUrl p @ uri s) (drop i (segments (manifest p)))"
proof (induction p i files rule: loadChunk_loop.induct)
  case (1 p i files)
  show ?case
  proof (cases "i < length (segments (manifest p))")
    case False
    then show ?thesis by (subst loadChunk_loop.simps) simp
  next
    case True
    have d: "drop i (segments (manifest p))
               = segments (manifest p) ! i # drop (Suc i) (segments (manifest p))"
      using True by (simp add: Cons_nth_drop_Suc)
    show ?thesis
      using True "1.IH"[OF refl True]
      by (subst loadChunk_loop.simps) (simp add: Let_def d)
  qed
qed

lemma getChunkIndex_range:
  "getChunkIndex p u = - 1 \<or>
   (0 \<le> getChunkIndex p u \<and> nat (getChunkIndex p u) < length (segments (manifest p)))"
  using getChunkIndex_loop_spec[of "segments (manifest p)" u 0]
  unfolding getChunkIndex_def by auto

lemma getChunkLocation_loop_spec:
  "(getChunkLocation_loop ps u = (None, - 1) \<and> (\<forall>kp \<in> set ps. getChunkIndex (snd kp) u = - 1))
   \<or> (\<exists>pre k p post. ps = pre @ (k, p) # post \<and>
         (\<forall>kp \<in> set pre. getChunkIndex (snd kp) u = - 1) \<and>
         0 \<le> getChunkIndex p u \<and>
         getChunkLocation_loop ps u = (Some p, getChunkIndex p u))"
proof (induction ps)
  case Nil
  then show ?case by simp
next
  case (Cons a ps)
  obtain k p where a: "a = (k, p)" by (cases a)
  show ?case
  proof (cases "0 \<le> getChunkIndex p u")
    case True
    then have "getChunkLocation_loop (a # ps) u = (Some p, getChunkIndex p u)"
      by (simp add: a Let_def)
    with True have "a # ps = [] @ (k, p) # ps \<and>
         (\<forall>kp \<in> set []. getChunkIndex (snd kp) u = - 1) \<and>
         0 \<le> getChunkIndex p u \<and>
         getChunkLocation_loop (a # ps) u = (Some p, getChunkIndex p u)"
      by (simp add: a)
    then show ?thesis by blast
  next
    case False
    then have m1: "getChunkIndex p u = - 1" using getChunkIndex_range[of p u] by auto
    have eq: "getChunkLocation_loop (a # ps) u = getChunkLocation_loop ps u"
      using False by (simp add: a Let_def)
    from Cons.IH show ?thesis
    proof
      assume "getChunkLocation_loop ps u = (None, - 1) \<and>
              (\<forall>kp \<in> set ps. getChunkIndex (snd kp) u = - 1)"
      then show ?thesis using eq m1 by (simp add: a)
    next
      assume "\<exists>pre k p post. ps = pre @ (k, p) # post \<and>
         (\<forall>kp \<in> set pre. getChunkIndex (snd kp) u = - 1) \<and>
         0 \<le> getChunkIndex p u \<and>
         getChunkLocation_loop ps u = (Some p, getChunkIndex p u)"
      then obtain pre k' p' post where h: "ps = pre @ (k', p') # post"
         "\<forall>kp \<in> set pre. getChunkIndex (snd kp) u = - 1"
         "0 \<le> getChunkIndex p' u"
         "getChunkLocation_loop ps u = (Some p', getChunkIndex p' u)" by blast
      have "a # ps = (a # pre) @ (k', p') # post \<and>
         (\<forall>kp \<in> set (a # pre). getChunkIndex (snd kp) u = - 1) \<and>
         0 \<le> getChunkIndex p' u \<and>
         getChunkLocation_loop (a # ps) u = (Some p', getChunkIndex p' u)"
        using h eq m1 by (simp add: a)
      then show ?thesis by blast
    qed
  qed
qed

lemma getChunkLocation_Some:
  assumes "getChunkLocation this u = (Some P, i)"
  shows "(\<exists>pre k post. playlists this = pre @ (k, P) # post \<and>
            (\<forall>kp \<in> set pre. getChunkIndex (snd kp) u = - 1)) \<and>
         i = getChunkIndex P u \<and> 0 \<le> i \<and> nat i < length (segments (manifest P))"
proof -
  from getChunkLocation_loop_spec[of "playlists this" u] assms
  obtain pre k p post where h: "playlists this = pre @ (k, p) # post"
         "\<forall>kp \<in> set pre. getChunkIndex (snd kp) u = - 1"
         "0 \<le> getChunkIndex p u"
         "getChunkLocation_loop (playlists this) u = (Some p, getChunkIndex p u)"
    unfolding getChunkLocation_def by auto
  from h(4) assms have pi: "p = P" "i = getChunkIndex P u"
    unfolding getChunkLocation_def by auto
  have "nat i < length (segments (manifest P))"
    using getChunkIndex_range[of P u] h(3) pi by auto
  with h pi show ?thesis by blast
qed

lemma getChunkLocation_None:
  assumes "fst (getChunkLocation this u) = None"
  shows "getChunkLocation this u = (None, - 1) \<and>
         (\<forall>kp \<in> set (playlists this). getChunkIndex (snd kp) u = - 1)"
  using getChunkLocation_loop_spec[of "playlists this" u] assms
  unfolding getChunkLocation_def by auto

lemma loadChunk_in_playlist:
  assumes "getChunkLocation this u = (Some P, i)"
  shows "loadChunk this u ok err =
     Inr (this\<lparr>chunk := Some \<lparr>chunk_url = baseUrl P @ uri (segments (manifest P) ! nat i),
                               onSuccess = ok, onError = err\<rparr>,
               effects := effects this @
                 [Load (map (\<lambda>s. baseUrl P @ uri s) (drop (nat i) (segments (manifest P))))
                       (url P)]\<rparr>)"
proof -
  from getChunkLocation_Some[OF assms]
  have i0: "0 \<le> i" and lt: "nat i < length (segments (manifest P))" by auto
  have d: "drop (nat i) (segments (manifest P))
             = segments (manifest P) ! nat i # drop (Suc (nat i)) (segments (manifest P))"
    using lt by (simp add: Cons_nth_drop_Suc)
  show ?thesis
    using assms i0 by (simp add: loadChunk_def loadChunk_loop_run d)
qed

lemma loadChunk_standalone:
  assumes "fst (getChunkLocation this u) = None"
  shows "loadChunk this u ok err =
     Inr (this\<lparr>chunk := Some \<lparr>chunk_url = u, onSuccess = ok, onError = err\<rparr>,
               effects := effects this @ [Load [u] u]\<rparr>)"
  using getChunkLocation_None[OF assms] by (simp add: loadChunk_def)

lemma abc_location:
  "getChunkLocation abc_manager ''http://host/path/b.ts'' = (Some abc_playlist, 1)"
  by code_simp

section \<open>The session slot\<close>

lemma invocations_append: "invocations (xs @ ys) = invocations xs @ invocations ys"
  by (induction xs rule: invocations.induct) simp_all

lemma onFileLoaded_empty: "chunk this = None \<Longrightarrow> onFileLoaded run this fl = (this, None)"
  by (simp add: onFileLoaded_def)

lemma onFileLoaded_other:
  "chunk this = Some c \<Longrightarrow> chunk_url c \<noteq> file_url fl \<Longrightarrow>
   onFileLoaded run this fl = (this, None)"
  by (simp add: onFileLoaded_def)

lemma onFileError_empty: "chunk this = None \<Longrightarrow> onFileError run this u error = (this, None)"
  by (simp add: onFileError_def)

lemma onFileError_other:
  "chunk this = Some c \<Longrightarrow> chunk_url c \<noteq> u \<Longrightarrow> onFileError run this u error = (this, None)"
  by (simp add: onFileError_def)

lemma dispatch_empty: "chunk this = None \<Longrightarrow> dispatch run this ev = (this, None)"
  by (cases ev) (simp_all add: onFileLoaded_empty onFileError_empty)

lemma dispatch_all_empty: "chunk this = None \<Longrightarrow> dispatch_all run this evs = this"
  by (induction evs) (simp_all add: dispatch_empty)

text \<open>
  The log after a matching event, for callbacks that deliver no transport event
  themselves: one invocation more, whether the callback returns or throws.
\<close>

lemma onFileLoaded_match_invocations:
  assumes quiet: "\<And>f a s. invocations (effects (fst (run f a s))) = invocations (effects s)"
    and "chunk this = Some c" and "chunk_url c = file_url fl" and "onSuccess c = Some f"
  shows "invocations (effects (fst (onFileLoaded run this fl)))
           = invocations (effects this) @ [(f, file_data fl)]"
proof -
  let ?s = "this\<lparr>effects := effects this @ [Invoke f (file_data fl)]\<rparr>"
  obtain t r where tr: "run f (file_data fl) ?s = (t, r)" by (cases "run f (file_data fl) ?s")
  have q: "invocations (effects t) = invocations (effects this) @ [(f, file_data fl)]"
    using quiet[of f "file_data fl" ?s] tr by (simp add: invocations_append)
  have "effects (fst (onFileLoaded run this fl)) = effects t"
    using assms(2-4) tr by (cases r) (simp_all add: onFileLoaded_def)
  with q show ?thesis by simp
qed

lemma onFileError_match_invocations:
  assumes quiet: "\<And>f a s. invocations (effects (fst (run f a s))) = invocations (effects s)"
    and "chunk this = Some c" and "chunk_url c = u" and "onError c = Some f"
  shows "invocations (effects (fst (onFileError run this u error)))
           = invocations (effects this) @ [(f, error)]"
proof -
  let ?s = "this\<lparr>effects := effects this @ [Invoke f error]\<rparr>"
  obtain t r where tr: "run f error ?s = (t, r)" by (cases "run f error ?s")
  have q: "invocations (effects t) = invocations (effects this) @ [(f, error)]"
    using quiet[of f error ?s] tr by (simp add: invocations_append)
  have "effects (fst (onFileError run this u error)) = effects t"
    using assms(2-4) tr by (cases r) (simp_all add: onFileError_def)
  with q show ?thesis by simp
qed

text \<open>
  One event, with callbacks that return and deliver no transport event themselves: either
  nothing happens, or the slot is empty afterwards and at most one invocation has been
  logged.
\<close>

lemma onFileLoaded_step:
  assumes ret: "\<And>f a s. snd (run f a s) = None"
    and quiet: "\<And>f a s. invocations (effects (fst (run f a s))) = invocations (effects s)"
  shows "onFileLoaded run this fl = (this, None) \<or>
         (chunk (fst (onFileLoaded run this fl)) = None \<and>
          (\<exists>new. invocations (effects (fst (onFileLoaded run this fl)))
                   = invocations (effects this) @ new \<and> length new \<le> 1))"
proof (cases "chunk this")
  case None
  then show ?thesis by (simp add: onFileLoaded_empty)
next
  case (Some c)
  show ?thesis
  proof (cases "chunk_url c = file_url fl")
    case False
    with Some show ?thesis by (simp add: onFileLoaded_other)
  next
    case True
    show ?thesis
    proof (cases "onSuccess c")
      case None
      with \<open>chunk this = Some c\<close> True
      have "onFileLoaded run this fl = (this\<lparr>chunk := None\<rparr>, None)"
        by (simp add: onFileLoaded_def)
      then show ?thesis by simp
    next
      case (Some f)
      let ?s = "this\<lparr>effects := effects this @ [Invoke f (file_data fl)]\<rparr>"
      obtain t where r: "run f (file_data fl) ?s = (t, None)"
        using ret[of f "file_data fl" ?s] by (cases "run f (file_data fl) ?s") auto
      have "invocations (effects t) = invocations (effects this) @ [(f, file_data fl)]"
        using quiet[of f "file_data fl" ?s] r by (simp add: invocations_append)
      moreover have "onFileLoaded run this fl = (t\<lparr>chunk := None\<rparr>, None)"
        using \<open>chunk this = Some c\<close> True Some r by (simp add: onFileLoaded_def)
      ultimately show ?thesis by simp
    qed
  qed
qed

lemma onFileError_step:
  assumes ret: "\<And>f a s. snd (run f a s) = None"
    and quiet: "\<And>f a s. invocations (effects (fst (run f a s))) = invocations (effects s)"
  shows "onFileError run this u error = (this, None) \<or>
         (chunk (fst (onFileError run this u error)) = None \<and>
          (\<exists>new. invocations (effects (fst (onFileError run this u error)))
                   = invocations (effects this) @ new \<and> length new \<le> 1))"
proof (cases "chunk this")
  case None
  then show ?thesis by (simp add: onFileError_empty)
next
  case (Some c)
  show ?thesis
  proof (cases "chunk_url c = u")
    case False
    with Some show ?thesis by (simp add: onFileError_other)
  next
    case True
    show ?thesis
    proof (cases "onError c")
      case None
      with \<open>chunk this = Some c\<close> True
      have "onFileError run this u error = (this\<lparr>chunk := None\<rparr>, None)"
        by (simp add: onFileError_def)
      then show ?thesis by simp
    next
      case (Some f)
      let ?s = "this\<lparr>effects := effects this @ [Invoke f error]\<rparr>"
      obtain t where r: "run f error ?s = (t, None)"
        using ret[of f error ?s] by (cases "run f error ?s") auto
      have "invocations (effects t) = invocations (effects this) @ [(f, error)]"
        using quiet[of f error ?s] r by (simp add: invocations_append)
      moreover have "onFileError run this u error = (t\<lparr>chunk := None\<rparr>, None)"
        using \<open>chunk this = Some c\<close> True Some r by (simp add: onFileError_def)
      ultimately show ?thesis by simp
    qed
  qed
qed

lemma dispatch_all_at_most_one:
  assumes ret: "\<And>f a s. snd (run f a s) = None"
    and quiet: "\<And>f a s. invocations (effects (fst (run f a s))) = invocations (effects s)"
  shows "\<exists>new. invocations (effects (dispatch_all run this evs))
                 = invocations (effects this) @ new \<and> length new \<le> 1"
proof (induction evs arbitrary: this)
  case Nil
  then show ?case by simp
next
  case (Cons ev evs)
  have step: "dispatch run this ev = (this, None) \<or>
         (chunk (fst (dispatch run this ev)) = None \<and>
          (\<exists>new. invocations (effects (fst (dispatch run this ev)))
                   = invocations (effects this) @ new \<and> length new \<le> 1))"
  proof (cases ev)
    case (FileLoaded fl)
    with onFileLoaded_step[where run=run and this=this and fl=fl, OF ret quiet]
    show ?thesis by simp
  next
    case (FileError u error)
    with onFileError_step[where run=run and this=this and u=u and error=error, OF ret quiet]
    show ?thesis by simp
  qed
  from step show ?case
  proof
    assume "dispatch run this ev = (this, None)"
    with Cons.IH[of this] show ?thesis by simp
  next
    assume "chunk (fst (dispatch run this ev)) = None \<and>
          (\<exists>new. invocations (effects (fst (dispatch run this ev)))
                   = invocations (effects this) @ new \<and> length new \<le> 1)"
    then show ?thesis by (simp add: dispatch_all_empty)
  qed
qed

lemma run_inert_returns: "snd (run_inert f a s) = None"
  by (simp add: run_inert_def)

lemma run_inert_quiet: "invocations (effects (fst (run_inert f a s))) = invocations (effects s)"
  by (simp add: run_inert_def)

lemma loadChunk_session:
  "\<exists>t fs k. loadChunk this u ok err =
     Inr (this\<lparr>chunk := Some \<lparr>chunk_url = t, onSuccess = ok, onError = err\<rparr>,
               effects := effects this @ [Load (t # fs) k]\<rparr>)"
proof (cases "getChunkLocation this u")
  case (Pair po i)
  show ?thesis
  proof (cases po)
    case None
    with Pair loadChunk_standalone[of this u ok err]
    have "loadChunk this u ok err =
     Inr (this\<lparr>chunk := Some \<lparr>chunk_url = u, onSuccess = ok, onError = err\<rparr>,
               effects := effects this @ [Load (u # []) u]\<rparr>)" by simp
    then show ?thesis by blast
  next
    case (Some P)
    have loc: "getChunkLocation this u = (Some P, i)" using Pair Some by simp
    from getChunkLocation_Some[OF loc]
    have lt: "nat i < length (segments (manifest P))" by blast
    have d: "drop (nat i) (segments (manifest P))
             = segments (manifest P) ! nat i # drop (Suc (nat i)) (segments (manifest P))"
      using lt by (simp add: Cons_nth_drop_Suc)
    from Pair Some loadChunk_in_playlist[of this u P i ok err]
    have "loadChunk this u ok err =
     Inr (this\<lparr>chunk := Some \<lparr>chunk_url = baseUrl P @ uri (segments (manifest P) ! nat i),
                               onSuccess = ok, onError = err\<rparr>,
               effects := effects this @
                 [Load ((baseUrl P @ uri (segments (manifest P) ! nat i))
                        # map (\<lambda>s. baseUrl P @ uri s) (drop (Suc (nat i)) (segments (manifest P))))
                       (url P)]\<rparr>)"
      by (simp add: d)
    then show ?thesis by blast
  qed
qed

section \<open>Claims\<close>

subsection \<open>Truncated rendering\<close>

text \<open>
  Claim C6. For a live manifest (no end marker) with \<open>N \<ge> 1\<close> segments and a limit \<open>k\<close> with
  \<open>0 \<le> k \<le> N\<close>, \<open>getLimitedContent k\<close> returns the document made of the two fixed lines
  \<open>#EXTM3U\<close> and \<open>#EXT-X-VERSION:3\<close>, then each of the four optional header tags exactly
  when its manifest field is truthy, then the \<open>EXTINF\<close>/URI pairs of the first \<open>N - k\<close>
  segments in their original order. The last \<open>k\<close> segments are omitted and nothing follows
  the last pair, so no end-of-list marker is emitted.
\<close>

theorem getLimitedContent_truncated:
  assumes "\<not> truthy nz (endList (manifest p))"
    and "segments (manifest p) \<noteq> []"
    and "0 \<le> k" and "k \<le> int (length (segments (manifest p)))"
  shows "\<exists>kept dropped.
     segments (manifest p) = kept @ dropped \<and>
     int (length dropped) = k \<and>
     int (length kept) = int (length (segments (manifest p))) - k \<and>
     kept = take (length (segments (manifest p)) - nat k) (segments (manifest p)) \<and>
     getLimitedContent nz ns p k =
       Inr (header_lines nz ns (manifest p) @ concat (map (segment_lines ns) kept))"
proof -
  let ?segs = "segments (manifest p)"
  let ?n = "length ?segs - nat k"
  have avail: "limitedContentAvail nz p"
    using assms(1,2) by (simp add: limitedContentAvail_def)
  have "?segs = take ?n ?segs @ drop ?n ?segs" by simp
  moreover have "int (length (drop ?n ?segs)) = k" using assms(3,4) by simp
  moreover have "int (length (take ?n ?segs)) = int (length ?segs) - k"
    using assms(3,4) by simp
  moreover note getLimitedContent_total[OF avail assms(3), of ns]
  ultimately show ?thesis by blast
qed

theorem getLimitedContent_truncated_witness:
  "getLimitedContent nat_truthy nat_text abc_playlist 1 =
     Inr (''#EXTM3U'' @ nl @ ''#EXT-X-VERSION:3'' @ nl @ ''#EXT-X-TARGETDURATION:10'' @ nl
          @ ''#EXTINF:10'' @ nl @ ''a.ts'' @ nl @ ''#EXTINF:10'' @ nl @ ''b.ts'' @ nl)"
  using getLimitedContent_truncated[of nat_truthy abc_playlist 1 nat_text]
  by (simp add: abc_playlist_def abc_manifest_def nat_truthy_def nat_text_def header_lines_def
      optional_tag_def segment_lines_def)

text \<open>
  Claim C10. For a live manifest with \<open>N \<ge> 1\<close> segments and a limit \<open>k \<ge> N\<close>,
  \<open>getLimitedContent k\<close> does not fail: it returns the fixed two-line header and the applicable
  optional tags, with no segment pair.
\<close>

theorem getLimitedContent_limit_beyond:
  assumes "\<not> truthy nz (endList (manifest p))"
    and "segments (manifest p) \<noteq> []"
    and "int (length (segments (manifest p))) \<le> k"
  shows "getLimitedContent nz ns p k = Inr (header_lines nz ns (manifest p))"
proof -
  have avail: "limitedContentAvail nz p"
    using assms(1,2) by (simp add: limitedContentAvail_def)
  have k0: "0 \<le> k" using assms(3) by linarith
  have "length (segments (manifest p)) - nat k = 0" using assms(3) by linarith
  with getLimitedContent_total[OF avail k0, of ns] show ?thesis by simp
qed

theorem getLimitedContent_limit_beyond_witness:
  "getLimitedContent nat_truthy nat_text abc_playlist 5 =
     Inr (''#EXTM3U'' @ nl @ ''#EXT-X-VERSION:3'' @ nl @ ''#EXT-X-TARGETDURATION:10'' @ nl)"
proof -
  have h1: "\<not> truthy nat_truthy (endList (manifest abc_playlist))"
    by (simp add: abc_playlist_def abc_manifest_def)
  have h2: "segments (manifest abc_playlist) \<noteq> []"
    by (simp add: abc_playlist_def abc_manifest_def)
  have h3: "int (length (segments (manifest abc_playlist))) \<le> 5"
    by (simp add: abc_playlist_def abc_manifest_def)
  show ?thesis
    using getLimitedContent_limit_beyond[OF h1 h2 h3, of nat_text]
    by (simp add: abc_playlist_def abc_manifest_def nat_truthy_def nat_text_def header_lines_def
        optional_tag_def)
qed

subsection \<open>Locating a segment in a playlist\<close>

text \<open>
  Claim C8. \<open>getChunkIndex\<close> returns the lowest index \<open>i\<close> such that the candidate url ends
  with \<open>segments[i].uri\<close>, and \<open>-1\<close> when no segment's uri is a suffix of the candidate url.
\<close>

theorem getChunkIndex_lowest:
  "(getChunkIndex p u = - 1 \<and>
      (\<forall>j < length (segments (manifest p)). \<not> suffix (uri (segments (manifest p) ! j)) u))
   \<or> (\<exists>r < length (segments (manifest p)).
         getChunkIndex p u = int r \<and> suffix (uri (segments (manifest p) ! r)) u \<and>
         (\<forall>j < r. \<not> suffix (uri (segments (manifest p) ! j)) u))"
  using getChunkIndex_loop_spec[of "segments (manifest p)" u 0]
  unfolding getChunkIndex_def by auto

theorem getChunkIndex_lowest_witness:
  "getChunkIndex abc_playlist ''http://host/path/b.ts'' = 1 \<and>
   getChunkIndex abc_playlist ''http://host/path/d.ts'' = - 1"
proof -
  have s: "segments (manifest abc_playlist) =
      [\<lparr>uri = ''a.ts'', duration = JNum 10\<rparr>, \<lparr>uri = ''b.ts'', duration = JNum 10\<rparr>,
       \<lparr>uri = ''c.ts'', duration = JNum 9\<rparr>]"
    by (simp add: abc_playlist_def abc_manifest_def)
  have a: "\<not> suffix ''a.ts'' ''http://host/path/b.ts''" by (simp add: suffix_to_prefix)
  have b: "suffix ''b.ts'' ''http://host/path/b.ts''" by (simp add: suffix_to_prefix)
  have c: "\<not> suffix ''c.ts'' ''http://host/path/b.ts''" by (simp add: suffix_to_prefix)
  have d: "\<not> suffix ''a.ts'' ''http://host/path/d.ts''" "\<not> suffix ''b.ts'' ''http://host/path/d.ts''"
     "\<not> suffix ''c.ts'' ''http://host/path/d.ts''" by (simp_all add: suffix_to_prefix)
  have 1: "getChunkIndex abc_playlist ''http://host/path/b.ts'' = 1"
    using getChunkIndex_lowest[of abc_playlist "''http://host/path/b.ts''"] a b c
    unfolding s by (auto simp: less_Suc_eq nth_Cons')
  have 2: "getChunkIndex abc_playlist ''http://host/path/d.ts'' = - 1"
    using getChunkIndex_lowest[of abc_playlist "''http://host/path/d.ts''"] d
    unfolding s by (auto simp: less_Suc_eq nth_Cons')
  show ?thesis using 1 2 by simp
qed

subsection \<open>The base url of a playlist\<close>

text \<open>
  Claim C9. For a url containing at least one \<open>/\<close>, the \<open>Playlist\<close> constructor succeeds and
  \<open>baseUrl\<close> is the prefix of the url up to and including its last \<open>/\<close>; through
  \<open>processHlsPlaylist\<close>, once the parser has returned a manifest, that playlist is stored and
  returned. For a url without \<open>/\<close> the constructor throws, \<open>processHlsPlaylist\<close> throws,
  and the manager it leaves behind is the one it was given.
\<close>

theorem Playlist_baseUrl:
  "(CHR ''/'' \<in> set u \<longrightarrow>
      (\<exists>b rest. u = b @ [CHR ''/''] @ rest \<and> CHR ''/'' \<notin> set rest \<and>
         Playlist u m
           = Inr \<lparr>url = u, baseUrl = b @ [CHR ''/''], manifest = m\<rparr> \<and>
         (parse content = Inr m \<longrightarrow>
            processHlsPlaylist parse this u content =
              (this\<lparr>playlists :=
                     map_set u \<lparr>url = u, baseUrl = b @ [CHR ''/''], manifest = m\<rparr> (playlists this)\<rparr>,
               Inr \<lparr>url = u, baseUrl = b @ [CHR ''/''], manifest = m\<rparr>)))) \<and>
   (CHR ''/'' \<notin> set u \<longrightarrow>
      Playlist u m = Inl (ThrownStr ''Unexpected playlist URL format'') \<and>
      (\<exists>e. processHlsPlaylist parse this u content = (this, Inl e)))"
proof (intro conjI impI)
  assume s: "CHR ''/'' \<in> set u"
  from baseUrl_split[OF s] obtain b rest where
    br: "u = b @ [CHR ''/''] @ rest" "CHR ''/'' \<notin> set rest"
      "substring0 u (lastIndexOf u CHR ''/'' + 1) = b @ [CHR ''/'']" by blast
  have 1: "Playlist u m
           = Inr \<lparr>url = u, baseUrl = b @ [CHR ''/''], manifest = m\<rparr>"
    using Playlist_ok[OF s, of m] br(3) by simp
  have 2: "parse content = Inr m \<longrightarrow>
            processHlsPlaylist parse this u content =
              (this\<lparr>playlists :=
                     map_set u \<lparr>url = u, baseUrl = b @ [CHR ''/''], manifest = m\<rparr> (playlists this)\<rparr>,
               Inr \<lparr>url = u, baseUrl = b @ [CHR ''/''], manifest = m\<rparr>)"
    using processHlsPlaylist_ok[OF s, of parse content m this] br(3) by simp
  from br(1,2) 1 2 show "\<exists>b rest. u = b @ [CHR ''/''] @ rest \<and> CHR ''/'' \<notin> set rest \<and>
         Playlist u m
           = Inr \<lparr>url = u, baseUrl = b @ [CHR ''/''], manifest = m\<rparr> \<and>
         (parse content = Inr m \<longrightarrow>
            processHlsPlaylist parse this u content =
              (this\<lparr>playlists :=
                     map_set u \<lparr>url = u, baseUrl = b @ [CHR ''/''], manifest = m\<rparr> (playlists this)\<rparr>,
               Inr \<lparr>url = u, baseUrl = b @ [CHR ''/''], manifest = m\<rparr>))" by blast
next
  assume n: "CHR ''/'' \<notin> set u"
  then show "Playlist u m = Inl (ThrownStr ''Unexpected playlist URL format'')"
    by (rule Playlist_fail)
next
  assume n: "CHR ''/'' \<notin> set u"
  show "\<exists>e. processHlsPlaylist parse this u content = (this, Inl e)"
    by (cases "parse content") (simp_all add: processHlsPlaylist_def Playlist_fail[OF n])
qed

theorem Playlist_baseUrl_witness:
  "processHlsPlaylist parse_abc empty_manager ''http://host/path/p.m3u8'' ''abc''
     = (empty_manager\<lparr>playlists := [(''http://host/path/p.m3u8'', abc_playlist)]\<rparr>, Inr abc_playlist)
   \<and> fst (processHlsPlaylist parse_abc empty_manager ''p.m3u8'' ''abc'') = empty_manager"
proof -
  let ?u = "''http://host/path/p.m3u8''"
  have s: "CHR ''/'' \<in> set ?u" by simp
  have n: "CHR ''/'' \<notin> set ''p.m3u8''" by simp
  have p: "parse_abc ''abc'' = Inr abc_manifest" by (simp add: parse_abc_def)
  from Playlist_baseUrl[of ?u abc_manifest parse_abc "''abc''" empty_manager] s p
  obtain b rest where br: "?u = b @ [CHR ''/''] @ rest" "CHR ''/'' \<notin> set rest"
    and r: "processHlsPlaylist parse_abc empty_manager ?u ''abc'' =
      (empty_manager\<lparr>playlists := map_set ?u
          \<lparr>url = ?u, baseUrl = b @ [CHR ''/''], manifest = abc_manifest\<rparr>
          (playlists empty_manager)\<rparr>,
       Inr \<lparr>url = ?u, baseUrl = b @ [CHR ''/''], manifest = abc_manifest\<rparr>)"
    by blast
  have "b @ [CHR ''/''] @ rest = ''http://host/path'' @ [CHR ''/''] @ ''p.m3u8''"
    using br(1) by simp
  then have "b = ''http://host/path'' \<and> rest = ''p.m3u8''"
    using br(2) by (intro last_split_unique) auto
  then have 1: "processHlsPlaylist parse_abc empty_manager ?u ''abc''
     = (empty_manager\<lparr>playlists := [(?u, abc_playlist)]\<rparr>, Inr abc_playlist)"
    using r by (simp add: abc_playlist_def empty_manager_def)
  from Playlist_baseUrl[of "''p.m3u8''" abc_manifest parse_abc "''abc''" empty_manager] n
  have 2: "fst (processHlsPlaylist parse_abc empty_manager ''p.m3u8'' ''abc'') = empty_manager"
    by auto
  from 1 2 show ?thesis by simp
qed

subsection \<open>Loading a playlist\<close>

text \<open>
  Claim C4. \<open>loadHlsPlaylist(u)\<close> fails exactly when the fetch throws, the parser throws
  or the \<open>Playlist\<close> constructor throws (the url without a path separator). In each of
  these cases the same value is re-thrown to the caller, and the manager it leaves behind
  differs from the one before the call only in the registry, which has no entry for \<open>u\<close>
  while the entries of all other urls, and their order, are unchanged.
\<close>

theorem loadHlsPlaylist_failure:
  "((fetchContent u = Inl e \<or>
     (\<exists>content. fetchContent u = Inr content \<and>
        (parse content = Inl e \<or> (\<exists>m. parse content = Inr m \<and> Playlist u m = Inl e))))
    \<longrightarrow>
      loadHlsPlaylist fetchContent parse nz ns this u
        = (this\<lparr>playlists := filter (\<lambda>kp. fst kp \<noteq> u) (playlists this)\<rparr>, Inl e) \<and>
      map_of (playlists (fst (loadHlsPlaylist fetchContent parse nz ns this u))) u = None \<and>
      (\<forall>v. v \<noteq> u \<longrightarrow>
         map_of (playlists (fst (loadHlsPlaylist fetchContent parse nz ns this u))) v
           = map_of (playlists this) v)) \<and>
   (snd (loadHlsPlaylist fetchContent parse nz ns this u) = Inl e \<longrightarrow>
      (fetchContent u = Inl e \<or>
       (\<exists>content. fetchContent u = Inr content \<and>
          (parse content = Inl e \<or> (\<exists>m. parse content = Inr m \<and> Playlist u m = Inl e)))))"
proof (intro conjI impI)
  assume cause: "fetchContent u = Inl e \<or>
     (\<exists>content. fetchContent u = Inr content \<and>
        (parse content = Inl e \<or> (\<exists>m. parse content = Inr m \<and> Playlist u m = Inl e)))"
  have eq: "loadHlsPlaylist fetchContent parse nz ns this u
        = (this\<lparr>playlists := map_delete u (playlists this)\<rparr>, Inl e)"
    using cause
  proof (elim disjE exE conjE)
    assume "fetchContent u = Inl e"
    then show ?thesis by (rule loadHlsPlaylist_fetch_fail)
  next
    fix content assume "fetchContent u = Inr content" "parse content = Inl e"
    then show ?thesis by (rule loadHlsPlaylist_parse_fail)
  next
    fix content m
    assume "fetchContent u = Inr content" "parse content = Inr m" "Playlist u m = Inl e"
    then show ?thesis by (rule loadHlsPlaylist_ctor_fail)
  qed
  show "loadHlsPlaylist fetchContent parse nz ns this u
        = (this\<lparr>playlists := filter (\<lambda>kp. fst kp \<noteq> u) (playlists this)\<rparr>, Inl e)"
    unfolding eq by (simp add: map_delete_filter)
  show "map_of (playlists (fst (loadHlsPlaylist fetchContent parse nz ns this u))) u = None"
    unfolding eq by (simp add: map_of_map_delete)
  show "\<forall>v. v \<noteq> u \<longrightarrow>
         map_of (playlists (fst (loadHlsPlaylist fetchContent parse nz ns this u))) v
           = map_of (playlists this) v"
    unfolding eq by (simp add: map_of_map_delete)
next
  assume fail: "snd (loadHlsPlaylist fetchContent parse nz ns this u) = Inl e"
  show "fetchContent u = Inl e \<or>
       (\<exists>content. fetchContent u = Inr content \<and>
          (parse content = Inl e \<or> (\<exists>m. parse content = Inr m \<and> Playlist u m = Inl e)))"
  proof (cases "fetchContent u")
    case (Inl e1)
    from loadHlsPlaylist_fetch_fail[of fetchContent u e1 parse nz ns this] fail Inl
    show ?thesis by simp
  next
    case (Inr content)
    show ?thesis
    proof (cases "parse content")
      case (Inl e1)
      from loadHlsPlaylist_parse_fail[of fetchContent u content parse e1 nz ns this] fail Inr Inl
      show ?thesis by simp
    next
      case m: (Inr m)
      show ?thesis
      proof (cases "Playlist u m")
        case (Inl e1)
        from loadHlsPlaylist_ctor_fail[of fetchContent u content parse m e1 nz ns this] fail Inr m Inl
        show ?thesis by simp
      next
        case p: (Inr p)
        have "\<exists>doc. (if limitedContentAvail nz p
            then getLimitedContent nz ns p (int (length (segments (manifest p)) div 2))
            else Inr content) = Inr doc"
          by (simp add: getLimitedContent_total)
        with loadHlsPlaylist_ok[of fetchContent u content parse m p nz ns this] Inr m p fail
        show ?thesis by auto
      qed
    qed
  qed
qed

theorem loadHlsPlaylist_failure_witness:
  "loadHlsPlaylist fetch_down parse_abc nat_truthy nat_text abc_manager ''http://host/path/p.m3u8''
     = (empty_manager, Inl (Foreign ''fetch error'')) \<and>
   loadHlsPlaylist fetch_abc parse_abc nat_truthy nat_text two_manager ''http://host/live/q.m3u8''
     = (abc_manager, Inl (Foreign ''parse error'')) \<and>
   loadHlsPlaylist fetch_abc parse_abc nat_truthy nat_text abc_manager ''p.m3u8''
     = (abc_manager, Inl (ThrownStr ''Unexpected playlist URL format''))"
proof -
  have f: "fetch_down ''http://host/path/p.m3u8'' = Inl (Foreign ''fetch error'')"
    by (simp add: fetch_down_def)
  from loadHlsPlaylist_failure[of fetch_down "''http://host/path/p.m3u8''" "Foreign ''fetch error''"
      parse_abc nat_truthy nat_text abc_manager] f
  have 1: "loadHlsPlaylist fetch_down parse_abc nat_truthy nat_text abc_manager
             ''http://host/path/p.m3u8'' = (empty_manager, Inl (Foreign ''fetch error''))"
    by (simp add: abc_manager_def empty_manager_def)
  have g: "fetch_abc ''http://host/live/q.m3u8'' = Inr ''garbage''"
    "parse_abc ''garbage'' = Inl (Foreign ''parse error'')"
    by (simp_all add: fetch_abc_def parse_abc_def)
  from loadHlsPlaylist_failure[of fetch_abc "''http://host/live/q.m3u8''" "Foreign ''parse error''"
      parse_abc nat_truthy nat_text two_manager] g
  have 2: "loadHlsPlaylist fetch_abc parse_abc nat_truthy nat_text two_manager
             ''http://host/live/q.m3u8'' = (abc_manager, Inl (Foreign ''parse error''))"
    by (simp add: two_manager_def abc_manager_def)
  have h: "fetch_abc ''p.m3u8'' = Inr ''abc''" "parse_abc ''abc'' = Inr abc_manifest"
    "Playlist ''p.m3u8'' abc_manifest = Inl (ThrownStr ''Unexpected playlist URL format'')"
    by (simp_all add: fetch_abc_def parse_abc_def Playlist_def)
  from loadHlsPlaylist_failure[of fetch_abc "''p.m3u8''" "ThrownStr ''Unexpected playlist URL format''"
      parse_abc nat_truthy nat_text abc_manager] h
  have 3: "loadHlsPlaylist fetch_abc parse_abc nat_truthy nat_text abc_manager ''p.m3u8''
     = (abc_manager, Inl (ThrownStr ''Unexpected playlist URL format''))"
    by (simp add: abc_manager_def)
  from 1 2 3 show ?thesis by simp
qed

text \<open>
  Claim C7. When the fetch returns a text, the parser returns a manifest for it and the url
  has a path separator, \<open>loadHlsPlaylist(url)\<close> stores the playlist under the url and
  returns: the truncated document \<open>getLimitedContent(floor(segmentCount / 2))\<close> of the stored
  playlist when \<open>limitedContentAvail()\<close> holds, that is, when the manifest has no end marker
  and at least one segment; and the fetched text unchanged otherwise. It does not throw.
\<close>

theorem loadHlsPlaylist_result:
  assumes "fetchContent u = Inr content" and "parse content = Inr m" and "CHR ''/'' \<in> set u"
  shows "\<exists>p. map_of (playlists (fst (loadHlsPlaylist fetchContent parse nz ns this u))) u = Some p \<and>
           url p = u \<and> manifest p = m \<and>
           limitedContentAvail nz p = (\<not> truthy nz (endList m) \<and> segments m \<noteq> []) \<and>
           snd (loadHlsPlaylist fetchContent parse nz ns this u) =
             (if limitedContentAvail nz p
              then getLimitedContent nz ns p (int (length (segments m) div 2))
              else Inr content) \<and>
           (\<exists>doc. snd (loadHlsPlaylist fetchContent parse nz ns this u) = Inr doc)"
proof -
  let ?p = "\<lparr>url = u, baseUrl = substring0 u (lastIndexOf u CHR ''/'' + 1), manifest = m\<rparr>"
  have P: "Playlist u m = Inr ?p"
    using assms(3) by (rule Playlist_ok)
  note R = loadHlsPlaylist_ok[of fetchContent u content parse m ?p nz ns this, OF assms(1,2) P]
  have 1: "map_of (playlists (fst (loadHlsPlaylist fetchContent parse nz ns this u))) u = Some ?p"
    unfolding R by (simp add: map_of_map_set)
  have 2: "limitedContentAvail nz ?p = (\<not> truthy nz (endList m) \<and> segments m \<noteq> [])"
    by (simp add: limitedContentAvail_iff)
  have 3: "snd (loadHlsPlaylist fetchContent parse nz ns this u) =
             (if limitedContentAvail nz ?p
              then getLimitedContent nz ns ?p (int (length (segments m) div 2))
              else Inr content)"
    unfolding R by simp
  have 4: "\<exists>doc. snd (loadHlsPlaylist fetchContent parse nz ns this u) = Inr doc"
    unfolding 3 by (simp add: getLimitedContent_total)
  have "url ?p = u \<and> manifest ?p = m" by simp
  with 1 2 3 4 show ?thesis by blast
qed

theorem loadHlsPlaylist_result_witness:
  "snd (loadHlsPlaylist fetch_abc parse_abc nat_truthy nat_text empty_manager ''http://host/path/p.m3u8'')
     = Inr (''#EXTM3U'' @ nl @ ''#EXT-X-VERSION:3'' @ nl @ ''#EXT-X-TARGETDURATION:10'' @ nl
            @ ''#EXTINF:10'' @ nl @ ''a.ts'' @ nl @ ''#EXTINF:10'' @ nl @ ''b.ts'' @ nl)"
proof -
  let ?u = "''http://host/path/p.m3u8''"
  have f: "fetch_abc ?u = Inr ''abc''" by (simp add: fetch_abc_def)
  have p: "parse_abc ''abc'' = Inr abc_manifest" by (simp add: parse_abc_def)
  have s: "CHR ''/'' \<in> set ?u" by simp
  from loadHlsPlaylist_result[of fetch_abc ?u "''abc''" parse_abc abc_manifest nat_truthy nat_text empty_manager,
      OF f p s]
  obtain q where q: "manifest q = abc_manifest"
      "limitedContentAvail nat_truthy q =
         (\<not> truthy nat_truthy (endList abc_manifest) \<and> segments abc_manifest \<noteq> [])"
      "snd (loadHlsPlaylist fetch_abc parse_abc nat_truthy nat_text empty_manager ?u) =
         (if limitedContentAvail nat_truthy q
          then getLimitedContent nat_truthy nat_text q (int (length (segments abc_manifest) div 2))
          else Inr ''abc'')"
    by blast
  have a: "limitedContentAvail nat_truthy q" unfolding q(2) by (simp add: abc_manifest_def)
  have l: "(0::int) \<le> int (length (segments abc_manifest) div 2)" by simp
  show ?thesis
    unfolding q(3) using a getLimitedContent_total[OF a l, of nat_text]
    by (simp add: q(1) abc_manifest_def nat_truthy_def nat_text_def header_lines_def
        optional_tag_def segment_lines_def)
qed

subsection \<open>The candidate files of a chunk load\<close>

text \<open>
  Claim C5. When the registry scan of \<open>loadChunk(u)\<close> locates \<open>u\<close> in a stored playlist
  \<open>P\<close> at index \<open>i\<close> (\<open>P\<close> is the first playlist in insertion order with a segment whose
  uri is a suffix of \<open>u\<close>, and \<open>i\<close> is \<open>P\<close>'s \<open>getChunkIndex\<close>), the file list handed to
  the transport is \<open>P.baseUrl + segments[j].uri\<close> for \<open>j = i, i+1, ..., last\<close> in playlist
  order, with the key \<open>P.url\<close>. When no stored playlist locates \<open>u\<close>, the list is the single
  url \<open>u\<close> with the key \<open>u\<close>. In both cases the session is created for the first file of
  the list and \<open>loadChunk\<close> returns without throwing.
\<close>

theorem loadChunk_candidates:
  "(\<forall>P i. getChunkLocation this u = (Some P, i) \<longrightarrow>
      (\<exists>pre k post. playlists this = pre @ (k, P) # post \<and>
            (\<forall>kp \<in> set pre. getChunkIndex (snd kp) u = - 1)) \<and>
      i = getChunkIndex P u \<and> 0 \<le> i \<and> nat i < length (segments (manifest P)) \<and>
      loadChunk this u ok err =
        Inr (this\<lparr>chunk := Some \<lparr>chunk_url = baseUrl P @ uri (segments (manifest P) ! nat i),
                                  onSuccess = ok, onError = err\<rparr>,
                  effects := effects this @
                    [Load (map (\<lambda>s. baseUrl P @ uri s) (drop (nat i) (segments (manifest P))))
                          (url P)]\<rparr>)) \<and>
   (fst (getChunkLocation this u) = None \<longrightarrow>
      (\<forall>kp \<in> set (playlists this). getChunkIndex (snd kp) u = - 1) \<and>
      loadChunk this u ok err =
        Inr (this\<lparr>chunk := Some \<lparr>chunk_url = u, onSuccess = ok, onError = err\<rparr>,
                  effects := effects this @ [Load [u] u]\<rparr>)) \<and>
   (\<exists>this'. loadChunk this u ok err = Inr this')"
proof (intro conjI allI impI)
  fix P i assume h: "getChunkLocation this u = (Some P, i)"
  from getChunkLocation_Some[OF h]
  show "\<exists>pre k post. playlists this = pre @ (k, P) # post \<and>
            (\<forall>kp \<in> set pre. getChunkIndex (snd kp) u = - 1)"
    and "i = getChunkIndex P u" and "0 \<le> i" and "nat i < length (segments (manifest P))"
    by blast+
  from loadChunk_in_playlist[OF h]
  show "loadChunk this u ok err =
        Inr (this\<lparr>chunk := Some \<lparr>chunk_url = baseUrl P @ uri (segments (manifest P) ! nat i),
                                  onSuccess = ok, onError = err\<rparr>,
                  effects := effects this @
                    [Load (map (\<lambda>s. baseUrl P @ uri s) (drop (nat i) (segments (manifest P))))
                          (url P)]\<rparr>)" .
next
  assume h: "fst (getChunkLocation this u) = None"
  from getChunkLocation_None[OF h]
  show "\<forall>kp \<in> set (playlists this). getChunkIndex (snd kp) u = - 1" by blast
  from loadChunk_standalone[OF h]
  show "loadChunk this u ok err =
        Inr (this\<lparr>chunk := Some \<lparr>chunk_url = u, onSuccess = ok, onError = err\<rparr>,
                  effects := effects this @ [Load [u] u]\<rparr>)" .
next
  show "\<exists>this'. loadChunk this u ok err = Inr this'"
  proof (cases "getChunkLocation this u")
    case (Pair po i)
    show ?thesis
    proof (cases po)
      case None
      with Pair loadChunk_standalone[of this u ok err] show ?thesis by simp
    next
      case (Some P)
      with Pair loadChunk_in_playlist[of this u P i ok err] show ?thesis by simp
    qed
  qed
qed

theorem loadChunk_candidates_witness:
  "loadChunk abc_manager ''http://host/path/b.ts'' (Some 1) (Some 2) =
     Inr (abc_manager\<lparr>chunk := Some \<lparr>chunk_url = ''http://host/path/b.ts'',
                                      onSuccess = Some 1, onError = Some 2\<rparr>,
                      effects := [Load [''http://host/path/b.ts'', ''http://host/path/c.ts'']
                                       ''http://host/path/p.m3u8'']\<rparr>) \<and>
   loadChunk empty_manager ''http://host/x.ts'' (Some 1) (Some 2) =
     Inr (empty_manager\<lparr>chunk := Some \<lparr>chunk_url = ''http://host/x.ts'',
                                        onSuccess = Some 1, onError = Some 2\<rparr>,
                        effects := [Load [''http://host/x.ts''] ''http://host/x.ts'']\<rparr>)"
proof -
  have n: "fst (getChunkLocation empty_manager ''http://host/x.ts'') = None"
    by (simp add: getChunkLocation_def empty_manager_def)
  from loadChunk_candidates[of abc_manager "''http://host/path/b.ts''" "Some 1" "Some 2"] abc_location
  have 1: "loadChunk abc_manager ''http://host/path/b.ts'' (Some 1) (Some 2) =
     Inr (abc_manager\<lparr>chunk := Some \<lparr>chunk_url = ''http://host/path/b.ts'',
                                      onSuccess = Some 1, onError = Some 2\<rparr>,
                      effects := [Load [''http://host/path/b.ts'', ''http://host/path/c.ts'']
                                       ''http://host/path/p.m3u8'']\<rparr>)"
    by (simp add: abc_manager_def abc_playlist_def abc_manifest_def)
  from loadChunk_candidates[of empty_manager "''http://host/x.ts''" "Some 1" "Some 2"] n
  have 2: "loadChunk empty_manager ''http://host/x.ts'' (Some 1) (Some 2) =
     Inr (empty_manager\<lparr>chunk := Some \<lparr>chunk_url = ''http://host/x.ts'',
                                        onSuccess = Some 1, onError = Some 2\<rparr>,
                        effects := [Load [''http://host/x.ts''] ''http://host/x.ts'']\<rparr>)"
    by (simp add: empty_manager_def)
  from 1 2 show ?thesis by simp
qed

subsection \<open>The session slot and the transport events\<close>

text \<open>
  Claim C3, amended. On a file-loaded event, exactly when a session is active and its url
  equals the file's url, the session's \<open>onSuccess\<close> is invoked with the file's data; when
  the callback returns, the slot is then empty, whatever the callback did to the manager in
  the meantime; when the callback throws, the thrown value propagates to the transport and
  the manager stays as the callback left it, the slot not cleared. A falsy callback is not
  invoked and the slot is cleared. For any other url, and with an empty slot, nothing is
  invoked and the manager is left as it was. A file-error event behaves in the same way
  with \<open>onError\<close> and the error. Hence, with callbacks that return and deliver no
  transport event themselves, whatever sequence of transport events follows adds at most
  one callback invocation to the log: a session fires at most one callback, once.
\<close>

theorem session_dispatch:
  "(\<forall>c f. chunk this = Some c \<and> chunk_url c = file_url fl \<and> onSuccess c = Some f \<longrightarrow>
      (\<forall>t. run f (file_data fl) (this\<lparr>effects := effects this @ [Invoke f (file_data fl)]\<rparr>)
              = (t, None)
            \<longrightarrow> onFileLoaded run this fl = (t\<lparr>chunk := None\<rparr>, None)) \<and>
      (\<forall>t e. run f (file_data fl) (this\<lparr>effects := effects this @ [Invoke f (file_data fl)]\<rparr>)
              = (t, Some e)
            \<longrightarrow> onFileLoaded run this fl = (t, Some e))) \<and>
   (\<forall>c. chunk this = Some c \<and> chunk_url c = file_url fl \<and> onSuccess c = None \<longrightarrow>
      onFileLoaded run this fl = (this\<lparr>chunk := None\<rparr>, None)) \<and>
   ((\<forall>c. chunk this = Some c \<longrightarrow> chunk_url c \<noteq> file_url fl) \<longrightarrow>
      onFileLoaded run this fl = (this, None)) \<and>
   (\<forall>c f. chunk this = Some c \<and> chunk_url c = u \<and> onError c = Some f \<longrightarrow>
      (\<forall>t. run f error (this\<lparr>effects := effects this @ [Invoke f error]\<rparr>) = (t, None)
            \<longrightarrow> onFileError run this u error = (t\<lparr>chunk := None\<rparr>, None)) \<and>
      (\<forall>t e. run f error (this\<lparr>effects := effects this @ [Invoke f error]\<rparr>) = (t, Some e)
            \<longrightarrow> onFileError run this u error = (t, Some e))) \<and>
   (\<forall>c. chunk this = Some c \<and> chunk_url c = u \<and> onError c = None \<longrightarrow>
      onFileError run this u error = (this\<lparr>chunk := None\<rparr>, None)) \<and>
   ((\<forall>c. chunk this = Some c \<longrightarrow> chunk_url c \<noteq> u) \<longrightarrow>
      onFileError run this u error = (this, None)) \<and>
   ((\<forall>f a s. snd (run f a s) = None \<and>
              invocations (effects (fst (run f a s))) = invocations (effects s)) \<longrightarrow>
      (\<exists>new. invocations (effects (dispatch_all run this evs))
               = invocations (effects this) @ new \<and> length new \<le> 1))"
proof -
  have 1: "\<forall>c f. chunk this = Some c \<and> chunk_url c = file_url fl \<and> onSuccess c = Some f \<longrightarrow>
      (\<forall>t. run f (file_data fl) (this\<lparr>effects := effects this @ [Invoke f (file_data fl)]\<rparr>)
              = (t, None)
            \<longrightarrow> onFileLoaded run this fl = (t\<lparr>chunk := None\<rparr>, None)) \<and>
      (\<forall>t e. run f (file_data fl) (this\<lparr>effects := effects this @ [Invoke f (file_data fl)]\<rparr>)
              = (t, Some e)
            \<longrightarrow> onFileLoaded run this fl = (t, Some e))"
    by (simp add: onFileLoaded_def)
  have 2: "\<forall>c. chunk this = Some c \<and> chunk_url c = file_url fl \<and> onSuccess c = None \<longrightarrow>
      onFileLoaded run this fl = (this\<lparr>chunk := None\<rparr>, None)"
    by (simp add: onFileLoaded_def)
  have 3: "(\<forall>c. chunk this = Some c \<longrightarrow> chunk_url c \<noteq> file_url fl) \<longrightarrow>
      onFileLoaded run this fl = (this, None)"
    by (cases "chunk this") (simp_all add: onFileLoaded_empty onFileLoaded_other)
  have 4: "\<forall>c f. chunk this = Some c \<and> chunk_url c = u \<and> onError c = Some f \<longrightarrow>
      (\<forall>t. run f error (this\<lparr>effects := effects this @ [Invoke f error]\<rparr>) = (t, None)
            \<longrightarrow> onFileError run this u error = (t\<lparr>chunk := None\<rparr>, None)) \<and>
      (\<forall>t e. run f error (this\<lparr>effects := effects this @ [Invoke f error]\<rparr>) = (t, Some e)
            \<longrightarrow> onFileError run this u error = (t, Some e))"
    by (simp add: onFileError_def)
  have 5: "\<forall>c. chunk this = Some c \<and> chunk_url c = u \<and> onError c = None \<longrightarrow>
      onFileError run this u error = (this\<lparr>chunk := None\<rparr>, None)"
    by (simp add: onFileError_def)
  have 6: "(\<forall>c. chunk this = Some c \<longrightarrow> chunk_url c \<noteq> u) \<longrightarrow>
      onFileError run this u error = (this, None)"
    by (cases "chunk this") (simp_all add: onFileError_empty onFileError_other)
  have 7: "(\<forall>f a s. snd (run f a s) = None \<and>
              invocations (effects (fst (run f a s))) = invocations (effects s)) \<longrightarrow>
      (\<exists>new. invocations (effects (dispatch_all run this evs))
               = invocations (effects this) @ new \<and> length new \<le> 1)"
  proof
    assume h: "\<forall>f a s. snd (run f a s) = None \<and>
              invocations (effects (fst (run f a s))) = invocations (effects s)"
    then have ret: "\<And>f a s. snd (run f a s) = None"
      and quiet: "\<And>f a s. invocations (effects (fst (run f a s))) = invocations (effects s)"
      by blast+
    show "\<exists>new. invocations (effects (dispatch_all run this evs))
               = invocations (effects this) @ new \<and> length new \<le> 1"
      using ret quiet by (rule dispatch_all_at_most_one)
  qed
  from 1 2 3 4 5 6 7 show ?thesis by (intro conjI)
qed

theorem session_dispatch_witness:
  "onFileLoaded run_inert pending_b file_b
     = (pending_b\<lparr>effects := effects pending_b @ [Invoke 1 7], chunk := None\<rparr>, None) \<and>
   onFileLoaded run_throw pending_b file_b
     = (pending_b\<lparr>effects := effects pending_b @ [Invoke 1 7]\<rparr>, Some (Foreign ''callback error'')) \<and>
   chunk (fst (onFileLoaded run_next pending_b file_b)) = None \<and>
   onFileLoaded run_inert pending_b file_c = (pending_b, None) \<and>
   onFileError run_inert pending_b ''http://host/path/b.ts'' 5
     = (pending_b\<lparr>effects := effects pending_b @ [Invoke 2 5], chunk := None\<rparr>, None) \<and>
   onFileError run_inert pending_b ''http://host/path/c.ts'' 5 = (pending_b, None) \<and>
   length (invocations (effects (dispatch_all run_inert pending_b
                                   [FileLoaded file_c, FileLoaded file_b, FileLoaded file_b]))) \<le> 1"
proof -
  have c: "chunk pending_b = Some \<lparr>chunk_url = ''http://host/path/b.ts'',
                                     onSuccess = Some 1, onError = Some 2\<rparr>"
    by (simp add: pending_b_def)
  have i: "invocations (effects pending_b) = []" by (simp add: pending_b_def)
  from session_dispatch[of pending_b file_b run_inert "''http://host/path/b.ts''" 5
      "[FileLoaded file_c, FileLoaded file_b, FileLoaded file_b]"] c
  have 1: "onFileLoaded run_inert pending_b file_b
     = (pending_b\<lparr>effects := effects pending_b @ [Invoke 1 7], chunk := None\<rparr>, None) \<and>
     onFileError run_inert pending_b ''http://host/path/b.ts'' 5
     = (pending_b\<lparr>effects := effects pending_b @ [Invoke 2 5], chunk := None\<rparr>, None)"
    by (simp add: file_b_def run_inert_def)
  from session_dispatch[of pending_b file_b run_inert "''http://host/path/b.ts''" 5
      "[FileLoaded file_c, FileLoaded file_b, FileLoaded file_b]"] i
  have 2: "length (invocations (effects (dispatch_all run_inert pending_b
                                   [FileLoaded file_c, FileLoaded file_b, FileLoaded file_b]))) \<le> 1"
    by (auto simp: run_inert_returns run_inert_quiet)
  from session_dispatch[of pending_b file_b run_throw "''http://host/path/b.ts''" 5 "[]"] c
  have 3: "onFileLoaded run_throw pending_b file_b
     = (pending_b\<lparr>effects := effects pending_b @ [Invoke 1 7]\<rparr>, Some (Foreign ''callback error''))"
    by (simp add: file_b_def run_throw_def)
  obtain t where t: "run_next 1 7 (pending_b\<lparr>effects := effects pending_b @ [Invoke 1 7]\<rparr>) = (t, None)"
    using loadChunk_session[of "pending_b\<lparr>effects := effects pending_b @ [Invoke 1 7]\<rparr>"
        "''http://host/path/c.ts''" "Some 3" "Some 4"]
    by (auto simp: run_next_def)
  from session_dispatch[of pending_b file_b run_next "''http://host/path/b.ts''" 5 "[]"] c t
  have 4: "chunk (fst (onFileLoaded run_next pending_b file_b)) = None"
    by (simp add: file_b_def)
  from session_dispatch[of pending_b file_c run_inert "''http://host/path/c.ts''" 5 "[]"] c
  have 5: "onFileLoaded run_inert pending_b file_c = (pending_b, None) \<and>
           onFileError run_inert pending_b ''http://host/path/c.ts'' 5 = (pending_b, None)"
    by (simp add: file_c_def)
  from 1 2 3 4 5 show ?thesis by simp
qed

text \<open>
  The condition that the callback returns cannot be dropped. \<open>this.chunk = null\<close> is
  executed after the call: with a callback that throws, the matching event leaves the
  session in the slot, and a second event for the same file invokes the callback again.
\<close>

theorem session_dispatch_counterexample:
  "chunk pending_b = Some \<lparr>chunk_url = ''http://host/path/b.ts'',
                           onSuccess = Some 1, onError = Some 2\<rparr> \<and>
   onFileLoaded run_throw pending_b file_b
     = (pending_b\<lparr>effects := effects pending_b @ [Invoke 1 7]\<rparr>, Some (Foreign ''callback error'')) \<and>
   chunk (fst (onFileLoaded run_throw pending_b file_b)) = chunk pending_b \<and>
   invocations (effects (dispatch_all run_throw pending_b [FileLoaded file_b, FileLoaded file_b]))
     = [(1, 7), (1, 7)]"
  by code_simp

text \<open>
  Claim C1, amended. After \<open>loadChunk(u, ok, err)\<close> followed immediately by
  \<open>abortChunk(u)\<close>, provided the url of the created session (the resolved target
  \<open>files[0].url\<close>) is \<open>u\<close> itself, the slot is empty and a subsequent file-loaded or
  file-error event for the resolved target, as any sequence of transport events, invokes
  neither \<open>ok\<close> nor \<open>err\<close>: the manager, and with it the log, stays as it is. The
  resolved target is \<open>u\<close> itself whenever no stored playlist locates \<open>u\<close>.
\<close>

theorem abort_after_load:
  assumes "loadChunk this u ok err = Inr this1" and "chunk this1 = Some c"
  shows "(fst (getChunkLocation this u) = None \<longrightarrow> chunk_url c = u) \<and>
         (chunk_url c = u \<longrightarrow>
            chunk (abortChunk this1 u) = None \<and>
            effects (abortChunk this1 u) = effects this1 \<and>
            onFileLoaded run (abortChunk this1 u) \<lparr>file_url = chunk_url c, file_data = d\<rparr>
              = (abortChunk this1 u, None) \<and>
            onFileError run (abortChunk this1 u) (chunk_url c) e = (abortChunk this1 u, None) \<and>
            dispatch_all run (abortChunk this1 u) evs = abortChunk this1 u)"
proof -
  have 1: "fst (getChunkLocation this u) = None \<longrightarrow> chunk_url c = u"
  proof
    assume "fst (getChunkLocation this u) = None"
    from loadChunk_standalone[OF this, of ok err] assms show "chunk_url c = u" by auto
  qed
  have 2: "chunk_url c = u \<longrightarrow>
            chunk (abortChunk this1 u) = None \<and>
            effects (abortChunk this1 u) = effects this1 \<and>
            onFileLoaded run (abortChunk this1 u) \<lparr>file_url = chunk_url c, file_data = d\<rparr>
              = (abortChunk this1 u, None) \<and>
            onFileError run (abortChunk this1 u) (chunk_url c) e = (abortChunk this1 u, None) \<and>
            dispatch_all run (abortChunk this1 u) evs = abortChunk this1 u"
  proof
    assume t: "chunk_url c = u"
    have a: "abortChunk this1 u = this1\<lparr>chunk := None\<rparr>"
      using assms(2) t by (simp add: abortChunk_def)
    then have n: "chunk (abortChunk this1 u) = None" by simp
    have "effects (abortChunk this1 u) = effects this1" using a by simp
    with n show "chunk (abortChunk this1 u) = None \<and>
            effects (abortChunk this1 u) = effects this1 \<and>
            onFileLoaded run (abortChunk this1 u) \<lparr>file_url = chunk_url c, file_data = d\<rparr>
              = (abortChunk this1 u, None) \<and>
            onFileError run (abortChunk this1 u) (chunk_url c) e = (abortChunk this1 u, None) \<and>
            dispatch_all run (abortChunk this1 u) evs = abortChunk this1 u"
      by (simp add: onFileLoaded_empty onFileError_empty dispatch_all_empty)
  qed
  from 1 2 show ?thesis by (rule conjI)
qed

theorem abort_after_load_witness:
  "dispatch_all run_throw (abortChunk pending_b ''http://host/path/b.ts'')
     [FileLoaded file_b, FileError ''http://host/path/b.ts'' 5]
     = abortChunk pending_b ''http://host/path/b.ts'' \<and>
   effects (abortChunk pending_b ''http://host/path/b.ts'') = effects pending_b \<and>
   dispatch_all run_inert (abortChunk pending_x ''http://host/x.ts'')
     [FileLoaded \<lparr>file_url = ''http://host/x.ts'', file_data = 7\<rparr>,
      FileError ''http://host/x.ts'' 5]
     = abortChunk pending_x ''http://host/x.ts''"
proof -
  have l: "loadChunk abc_manager ''http://host/path/b.ts'' (Some 1) (Some 2) = Inr pending_b"
    by code_simp
  have c: "chunk pending_b = Some \<lparr>chunk_url = ''http://host/path/b.ts'',
                                     onSuccess = Some 1, onError = Some 2\<rparr>"
    by (simp add: pending_b_def)
  from abort_after_load[where run=run_throw
      and evs="[FileLoaded file_b, FileError ''http://host/path/b.ts'' 5]", OF l c]
  have 1: "dispatch_all run_throw (abortChunk pending_b ''http://host/path/b.ts'')
     [FileLoaded file_b, FileError ''http://host/path/b.ts'' 5]
     = abortChunk pending_b ''http://host/path/b.ts'' \<and>
   effects (abortChunk pending_b ''http://host/path/b.ts'') = effects pending_b"
    by simp
  have lx: "loadChunk empty_manager ''http://host/x.ts'' (Some 1) (Some 2) = Inr pending_x"
    by code_simp
  have n: "fst (getChunkLocation empty_manager ''http://host/x.ts'') = None"
    by (simp add: getChunkLocation_def empty_manager_def)
  obtain cx where cx: "chunk pending_x = Some cx"
    by (simp add: pending_x_def)
  from abort_after_load[where run=run_inert
      and evs="[FileLoaded \<lparr>file_url = ''http://host/x.ts'', file_data = 7\<rparr>,
                FileError ''http://host/x.ts'' 5]", OF lx cx] n
  have 2: "dispatch_all run_inert (abortChunk pending_x ''http://host/x.ts'')
     [FileLoaded \<lparr>file_url = ''http://host/x.ts'', file_data = 7\<rparr>,
      FileError ''http://host/x.ts'' 5]
     = abortChunk pending_x ''http://host/x.ts''"
    by simp
  from 1 2 show ?thesis by simp
qed

text \<open>
  The condition on the resolved target cannot be dropped. The url passed to \<open>loadChunk\<close>
  and the url of the session it creates can differ: the session is created for
  \<open>files[0].url\<close>, which for a url located in a playlist is \<open>baseUrl + uri\<close>, and
  \<open>abortChunk\<close> compares its argument with the session's url. With the example playlist,
  \<open>http://cdn/b.ts\<close> ends with \<open>b.ts\<close> and resolves to \<open>http://host/path/b.ts\<close>;
  \<open>abortChunk\<close> of \<open>http://cdn/b.ts\<close> then leaves the session in place, and the events
  for the resolved file invoke the callbacks.
\<close>

theorem abort_after_load_counterexample:
  "loadChunk abc_manager ''http://cdn/b.ts'' (Some 1) (Some 2) = Inr pending_b \<and>
   chunk_url (the (chunk pending_b)) = ''http://host/path/b.ts'' \<and>
   effects (fst (onFileLoaded run_inert (abortChunk pending_b ''http://cdn/b.ts'') file_b))
     = effects pending_b @ [Invoke 1 7] \<and>
   effects (fst (onFileError run_inert (abortChunk pending_b ''http://cdn/b.ts'')
                   ''http://host/path/b.ts'' 5))
     = effects pending_b @ [Invoke 2 5]"
  by code_simp

text \<open>
  Claim C2. After \<open>loadChunk(u1, ok1, err1)\<close> followed by \<open>loadChunk(u2, ok2, err2)\<close>
  with no completion event in between, the two requests having callbacks of their own, a
  later transport event for \<open>u1\<close>'s resolved target never invokes \<open>ok1\<close> or \<open>err1\<close>
  (it is ignored when the two resolved targets differ), and a transport event for \<open>u2\<close>'s
  resolved target invokes \<open>ok2\<close> with the data on file-loaded and \<open>err2\<close> with the
  error on file-error. The invocations are read from the log, for callbacks that deliver
  no transport event themselves.
\<close>

theorem superseding_load:
  assumes "loadChunk this u1 (Some ok1) (Some err1) = Inr s1" and "chunk s1 = Some c1"
    and "loadChunk s1 u2 (Some ok2) (Some err2) = Inr s2" and "chunk s2 = Some c2"
    and "ok1 \<noteq> ok2" and "ok1 \<noteq> err2" and "err1 \<noteq> ok2" and "err1 \<noteq> err2"
    and "\<And>f a s. invocations (effects (fst (run f a s))) = invocations (effects s)"
  shows "invocations (effects (fst (onFileLoaded run s2 \<lparr>file_url = chunk_url c2, file_data = d\<rparr>)))
           = invocations (effects s2) @ [(ok2, d)] \<and>
         invocations (effects (fst (onFileError run s2 (chunk_url c2) e)))
           = invocations (effects s2) @ [(err2, e)] \<and>
         (\<exists>new. invocations (effects (fst (onFileLoaded run s2
                                             \<lparr>file_url = chunk_url c1, file_data = d\<rparr>)))
                  = invocations (effects s2) @ new \<and>
                ok1 \<notin> fst ` set new \<and> err1 \<notin> fst ` set new) \<and>
         (\<exists>new. invocations (effects (fst (onFileError run s2 (chunk_url c1) e)))
                  = invocations (effects s2) @ new \<and>
                ok1 \<notin> fst ` set new \<and> err1 \<notin> fst ` set new) \<and>
         (chunk_url c1 \<noteq> chunk_url c2 \<longrightarrow>
            onFileLoaded run s2 \<lparr>file_url = chunk_url c1, file_data = d\<rparr> = (s2, None) \<and>
            onFileError run s2 (chunk_url c1) e = (s2, None))"
proof -
  note quiet = assms(9)
  from loadChunk_session[of s1 u2 "Some ok2" "Some err2"] assms(3,4)
  have cb: "onSuccess c2 = Some ok2" "onError c2 = Some err2" by auto
  have 1: "invocations (effects (fst (onFileLoaded run s2 \<lparr>file_url = chunk_url c2, file_data = d\<rparr>)))
           = invocations (effects s2) @ [(ok2, d)]"
    using onFileLoaded_match_invocations[where run=run and this=s2 and c=c2 and f=ok2
        and fl="\<lparr>file_url = chunk_url c2, file_data = d\<rparr>", OF quiet assms(4) _ cb(1)]
    by simp
  have 2: "invocations (effects (fst (onFileError run s2 (chunk_url c2) e)))
           = invocations (effects s2) @ [(err2, e)]"
    using onFileError_match_invocations[where run=run and this=s2 and c=c2 and f=err2
        and u="chunk_url c2" and error=e, OF quiet assms(4) refl cb(2)]
    by simp
  have 5: "chunk_url c1 \<noteq> chunk_url c2 \<longrightarrow>
            onFileLoaded run s2 \<lparr>file_url = chunk_url c1, file_data = d\<rparr> = (s2, None) \<and>
            onFileError run s2 (chunk_url c1) e = (s2, None)"
    using assms(4) by (simp add: onFileLoaded_other onFileError_other)
  have 3: "\<exists>new. invocations (effects (fst (onFileLoaded run s2
                                             \<lparr>file_url = chunk_url c1, file_data = d\<rparr>)))
                  = invocations (effects s2) @ new \<and>
                ok1 \<notin> fst ` set new \<and> err1 \<notin> fst ` set new"
  proof (cases "chunk_url c1 = chunk_url c2")
    case True
    have "ok1 \<notin> fst ` set [(ok2, d)] \<and> err1 \<notin> fst ` set [(ok2, d)]"
      using assms(5,7) by simp
    with 1 True show ?thesis by metis
  next
    case False
    with 5 have "invocations (effects (fst (onFileLoaded run s2
                   \<lparr>file_url = chunk_url c1, file_data = d\<rparr>))) = invocations (effects s2) @ []"
      by simp
    then show ?thesis by (intro exI[of _ "[]"]) simp
  qed
  have 4: "\<exists>new. invocations (effects (fst (onFileError run s2 (chunk_url c1) e)))
                  = invocations (effects s2) @ new \<and>
                ok1 \<notin> fst ` set new \<and> err1 \<notin> fst ` set new"
  proof (cases "chunk_url c1 = chunk_url c2")
    case True
    have "ok1 \<notin> fst ` set [(err2, e)] \<and> err1 \<notin> fst ` set [(err2, e)]"
      using assms(6,8) by simp
    with 2 True show ?thesis by metis
  next
    case False
    with 5 have "invocations (effects (fst (onFileError run s2 (chunk_url c1) e)))
                   = invocations (effects s2) @ []"
      by simp
    then show ?thesis by (intro exI[of _ "[]"]) simp
  qed
  from 1 2 3 4 5 show ?thesis by (intro conjI)
qed

theorem superseding_load_witness:
  "invocations (effects (fst (onFileLoaded run_inert pending_ab file_b))) = [(3, 7)] \<and>
   invocations (effects (fst (onFileError run_inert pending_ab ''http://host/path/b.ts'' 5)))
     = [(4, 5)] \<and>
   onFileLoaded run_inert pending_ab \<lparr>file_url = ''http://host/path/a.ts'', file_data = 7\<rparr>
     = (pending_ab, None) \<and>
   onFileError run_inert pending_ab ''http://host/path/a.ts'' 5 = (pending_ab, None)"
proof -
  have l1: "loadChunk abc_manager ''http://host/path/a.ts'' (Some 1) (Some 2) = Inr pending_a"
    by code_simp
  have c1: "chunk pending_a = Some \<lparr>chunk_url = ''http://host/path/a.ts'',
                                      onSuccess = Some 1, onError = Some 2\<rparr>"
    by (simp add: pending_a_def)
  have l2: "loadChunk pending_a ''http://host/path/b.ts'' (Some 3) (Some 4) = Inr pending_ab"
    by code_simp
  have c2: "chunk pending_ab = Some \<lparr>chunk_url = ''http://host/path/b.ts'',
                                       onSuccess = Some 3, onError = Some 4\<rparr>"
    by (simp add: pending_ab_def)
  have i: "invocations (effects pending_ab) = []" by (simp add: pending_ab_def)
  from superseding_load[where run=run_inert and d=7 and e=5,
      OF l1 c1 l2 c2 _ _ _ _ run_inert_quiet] i
  show ?thesis by (simp add: file_b_def)
qed

end
